theory Spec2Isabelle
  imports Main
begin

section \<open>Exceptions\<close>

text \<open>
  The services throw JavaScript errors; the model returns them as values. Each constructor
  is one error class of the source and carries the error's \<open>message\<close>.
  \<open>PostgrestError\<close> is the \<open>error\<close> member of a database response.
\<close>

datatype exn =
    Error string
  | PostgrestError string
  | NotFoundException string
  | ConflictException string
  | InternalServerErrorException string
  | RpcException string

fun message :: "exn \<Rightarrow> string" where
  "message (Error m) = m"
| "message (PostgrestError m) = m"
| "message (NotFoundException m) = m"
| "message (ConflictException m) = m"
| "message (InternalServerErrorException m) = m"
| "message (RpcException m) = m"

section \<open>The item table\<close>

text \<open>
  A row of the table \<open>item\<close>, with the columns the item service reads and writes.
  The columns \<open>id\<close>, \<open>length\<close>, \<open>width\<close>, \<open>height\<close> and \<open>name\<close> carry a suffix, as
  the plain names are taken. A nullable column is an \<open>option\<close>.
\<close>

record item =
  id_col :: int
  user_id :: int
  friend_id :: int
  exchange_id :: "int option"
  length_col :: int
  width_col :: int
  height_col :: int
  name_col :: string
  weight :: int

text \<open>
  A database call answers \<open>{data, error}\<close>. Whether the database can execute a statement
  at all is outside the program, so every call takes the fault (if any) the database
  answers with: \<open>None\<close> when the statement is executed, \<open>Some m\<close> when it is refused with
  message \<open>m\<close>, in which case the table is left as it was.
\<close>

type_synonym fault = "string option"

definition respond :: "fault \<Rightarrow> 'a \<Rightarrow> exn + 'a" where
  "respond f x = (case f of Some m \<Rightarrow> Inl (PostgrestError m) | None \<Rightarrow> Inr x)"

text \<open>\<open>.single()\<close>: the response is an error unless exactly one row was selected.\<close>

definition single :: "'a list \<Rightarrow> exn + 'a" where
  "single rows =
     (case rows of
        [r] \<Rightarrow> Inr r
      | _ \<Rightarrow> Inl (PostgrestError ''JSON object requested, multiple (or no) rows returned''))"

text \<open>\<open>.eq(column, v)\<close> and \<open>.in('id', ids)\<close> select rows.\<close>

definition in_ids :: "int list \<Rightarrow> item \<Rightarrow> bool" where
  "in_ids ids r = (id_col r \<in> set ids)"

text \<open>JavaScript truthiness of a nullable number: \<open>null\<close> and \<open>0\<close> are falsy.\<close>

definition truthy :: "int option \<Rightarrow> bool" where
  "truthy v = (case v of None \<Rightarrow> False | Some n \<Rightarrow> n \<noteq> 0)"

section \<open>ItemService\<close>

subsection \<open>getUserItems\<close>

definition getUserItems :: "fault \<Rightarrow> int \<Rightarrow> bool \<Rightarrow> item list \<Rightarrow> exn + item list" where
  "getUserItems f uid forgoten tbl =
     (if forgoten
      then respond f (filter (\<lambda>r. user_id r = uid) tbl)
      else respond f (filter (\<lambda>r. friend_id r = uid) tbl))"

subsection \<open>deleteItem\<close>

text \<open>
  The body of the \<open>try\<close> block: the result or the error thrown, and the table afterwards.
\<close>

definition deleteItem_try :: "fault \<Rightarrow> fault \<Rightarrow> int \<Rightarrow> item list \<Rightarrow> (exn + bool) \<times> item list" where
  "deleteItem_try fetchFault deleteFault item_id tbl =
     (case (case fetchFault of
              Some m \<Rightarrow> Inl (PostgrestError m)
            | None \<Rightarrow> single (filter (\<lambda>r. id_col r = item_id) tbl)) of
        Inl fetchError \<Rightarrow> (Inl fetchError, tbl)
      | Inr itemData \<Rightarrow>
          if truthy (exchange_id itemData)
          then (Inl (Error ''Item is in exchange and cannot be deleted.''), tbl)
          else (case deleteFault of
                  Some m \<Rightarrow> (Inl (PostgrestError m), tbl)
                | None \<Rightarrow> (Inr True, filter (\<lambda>r. id_col r \<noteq> item_id) tbl)))"

text \<open>The \<open>catch\<close> block logs the error and returns \<open>false\<close>.\<close>

definition deleteItem :: "fault \<Rightarrow> fault \<Rightarrow> int \<Rightarrow> item list \<Rightarrow> bool \<times> item list" where
  "deleteItem fetchFault deleteFault item_id tbl =
     (case deleteItem_try fetchFault deleteFault item_id tbl of
        (Inl e, tbl') \<Rightarrow> (False, tbl')
      | (Inr b, tbl') \<Rightarrow> (b, tbl'))"

subsection \<open>retrieveItemSizesAndCheckExchange\<close>

record item_size =
  size_length :: int
  size_width :: int
  size_height :: int
  size_id :: int

definition ItemSizeDto :: "int \<Rightarrow> int \<Rightarrow> int \<Rightarrow> int \<Rightarrow> item_size" where
  "ItemSizeDto l w h i = \<lparr>size_length = l, size_width = w, size_height = h, size_id = i\<rparr>"

definition retrieveItemSizes_try :: "fault \<Rightarrow> int list \<Rightarrow> bool \<Rightarrow> item list \<Rightarrow> exn + item_size list" where
  "retrieveItemSizes_try f ids udpate tbl =
     (case respond f (filter (in_ids ids) tbl) of
        Inl error \<Rightarrow> Inl error
      | Inr data \<Rightarrow>
          if \<not> udpate \<and> list_ex (\<lambda>r. exchange_id r \<noteq> None) data
          then Inl (Error ''One or more items are already in an exchange'')
          else Inr (map (\<lambda>r. ItemSizeDto (length_col r) (width_col r) (height_col r) (id_col r)) data))"

text \<open>The \<open>catch\<close> block replaces whatever was thrown by one fixed error.\<close>

definition retrieveItemSizesAndCheckExchange ::
  "fault \<Rightarrow> int list \<Rightarrow> bool \<Rightarrow> item list \<Rightarrow> exn + item_size list" where
  "retrieveItemSizesAndCheckExchange f ids udpate tbl =
     (case retrieveItemSizes_try f ids udpate tbl of
        Inl err \<Rightarrow> Inl (Error ''Failed to fetch item sizes'')
      | Inr itemSizes \<Rightarrow> Inr itemSizes)"

subsection \<open>addExchangeIdToItem and deleteExchangeFromItems\<close>

record ToggleExchangeToItemDto =
  dto_exchange_id :: int
  item_ids :: "int list"

text \<open>\<open>update({exchange_id: v}).in('id', ids)\<close> on the table.\<close>

definition update_exchange_id :: "int option \<Rightarrow> int list \<Rightarrow> item list \<Rightarrow> item list" where
  "update_exchange_id v ids tbl = map (\<lambda>r. if in_ids ids r then r\<lparr>exchange_id := v\<rparr> else r) tbl"

definition addExchangeIdToItem ::
  "fault \<Rightarrow> ToggleExchangeToItemDto \<Rightarrow> item list \<Rightarrow> (exn + item list) \<times> item list" where
  "addExchangeIdToItem f dto tbl =
     (case f of
        Some m \<Rightarrow> (Inl (PostgrestError m), tbl)
      | None \<Rightarrow>
          (let tbl' = update_exchange_id (Some (dto_exchange_id dto)) (item_ids dto) tbl
           in (Inr (filter (in_ids (item_ids dto)) tbl'), tbl')))"

definition deleteExchangeFromItems ::
  "fault \<Rightarrow> ToggleExchangeToItemDto \<Rightarrow> item list \<Rightarrow> (exn + bool) \<times> item list" where
  "deleteExchangeFromItems f dto tbl =
     (case f of
        Some m \<Rightarrow> (Inl (PostgrestError m), tbl)
      | None \<Rightarrow> (Inr True, update_exchange_id None (item_ids dto) tbl))"

subsection \<open>createItem\<close>

record CreateItemDto =
  dto_user_id :: int
  dto_friend_id :: int
  heightInCm :: int
  lengthInCm :: int
  dto_name :: string
  weightInGrams :: int
  widthInCm :: int

text \<open>
  \<open>response\<close> is what the call to the user service (\<open>checkIfFriends\<close>) delivers: the
  boolean it returns, or the error it is rejected with. \<open>new_id\<close> is the key the database
  gives the inserted row.
\<close>

definition createItem ::
  "(exn + bool) \<Rightarrow> fault \<Rightarrow> int \<Rightarrow> CreateItemDto \<Rightarrow> item list \<Rightarrow> (exn + item) \<times> item list" where
  "createItem response f new_id createItemDto tbl =
     (case response of
        Inl error \<Rightarrow> (Inl error, tbl)
      | Inr friends \<Rightarrow>
          if \<not> friends
          then (Inl (Error ''Cannot create item: The specified users are not friends.''), tbl)
          else (case f of
                  Some m \<Rightarrow> (Inl (PostgrestError m), tbl)
                | None \<Rightarrow>
                    (let data = \<lparr>id_col = new_id,
                                 user_id = dto_user_id createItemDto,
                                 friend_id = dto_friend_id createItemDto,
                                 exchange_id = None,
                                 length_col = lengthInCm createItemDto,
                                 width_col = widthInCm createItemDto,
                                 height_col = heightInCm createItemDto,
                                 name_col = dto_name createItemDto,
                                 weight = weightInGrams createItemDto\<rparr>
                     in (Inr data, tbl @ [data]))))"

section \<open>The cache manager\<close>

text \<open>
  The controllers keep results in a key-value cache with a time to live. An entry is stored
  with the instant it expires at and is served up to and including that instant; \<open>get\<close>
  answers \<open>undefined\<close> (here \<open>None\<close>) for a key that is absent or expired. Time is counted
  in the unit of the time to live.
\<close>

type_synonym 'v cache = "string \<Rightarrow> ('v \<times> int) option"

definition cache_get :: "'v cache \<Rightarrow> int \<Rightarrow> string \<Rightarrow> 'v option" where
  "cache_get c now k =
     (case c k of
        None \<Rightarrow> None
      | Some (v, expires) \<Rightarrow> if now \<le> expires then Some v else None)"

definition cache_set :: "'v cache \<Rightarrow> int \<Rightarrow> string \<Rightarrow> 'v \<Rightarrow> int \<Rightarrow> 'v cache" where
  "cache_set c now k v ttl = c(k \<mapsto> (v, now + ttl))"

text \<open>
  A number inside a template literal is printed in decimal, the digits collected from the
  last one to the first, with a minus sign in front of a negative number. This is the text
  JavaScript gives for an integer whose absolute value has at most 21 digits, as every
  identifier of a table row has; beyond that JavaScript prints an exponent, which is not
  modelled.
\<close>

definition digit_char :: "nat \<Rightarrow> char" where
  "digit_char d = ''0123456789'' ! d"

function decimal_digits :: "nat \<Rightarrow> string \<Rightarrow> string" where
  "decimal_digits n acc =
     (if n < 10 then digit_char n # acc
      else decimal_digits (n div 10) (digit_char (n mod 10) # acc))"
  by pat_completeness auto
termination
  by (relation "measure fst") auto

declare decimal_digits.simps [simp del]

definition number_text :: "int \<Rightarrow> string" where
  "number_text i =
     (if i < 0 then CHR ''-'' # decimal_digits (nat (- i)) [] else decimal_digits (nat i) [])"

section \<open>ItemController\<close>

text \<open>
  The repository holds two controllers of this name. The first one caches and wraps every
  error in an \<open>RpcException\<close>; the second one, suffixed \<open>2\<close> here, calls the service
  directly.
\<close>

definition ItemController_getUserItems ::
  "fault \<Rightarrow> int \<Rightarrow> int \<Rightarrow> item list cache \<Rightarrow> item list \<Rightarrow> (exn + item list) \<times> item list cache" where
  "ItemController_getUserItems f now uid c tbl =
     (let cacheKey = ''userItems:'' @ number_text uid in
      case cache_get c now cacheKey of
        Some cachedUserItems \<Rightarrow> (Inr cachedUserItems, c)
      | None \<Rightarrow>
          (case getUserItems f uid True tbl of
             Inl error \<Rightarrow> (Inl (RpcException (message error)), c)
           | Inr userItems \<Rightarrow> (Inr userItems, cache_set c now cacheKey userItems 18000)))"

definition ItemController_getUserForgotenItems ::
  "fault \<Rightarrow> int \<Rightarrow> int \<Rightarrow> item list cache \<Rightarrow> item list \<Rightarrow> (exn + item list) \<times> item list cache" where
  "ItemController_getUserForgotenItems f now uid c tbl =
     (let cacheKey = ''userForgottenItems:'' @ number_text uid in
      case cache_get c now cacheKey of
        Some cachedUserForgottenItems \<Rightarrow> (Inr cachedUserForgottenItems, c)
      | None \<Rightarrow>
          (case getUserItems f uid False tbl of
             Inl error \<Rightarrow> (Inl (RpcException (message error)), c)
           | Inr userForgottenItems \<Rightarrow>
               (Inr userForgottenItems, cache_set c now cacheKey userForgottenItems 18000)))"

definition ItemController_deleteItem ::
  "fault \<Rightarrow> fault \<Rightarrow> int \<Rightarrow> item list \<Rightarrow> (exn + bool) \<times> item list" where
  "ItemController_deleteItem fetchFault deleteFault item_id tbl =
     (case deleteItem fetchFault deleteFault item_id tbl of (b, tbl') \<Rightarrow> (Inr b, tbl'))"


definition ItemController2_getUserItems :: "fault \<Rightarrow> int \<Rightarrow> item list \<Rightarrow> exn + item list" where
  "ItemController2_getUserItems f uid tbl = getUserItems f uid False tbl"

definition ItemController2_getUserForgotenItems :: "fault \<Rightarrow> int \<Rightarrow> item list \<Rightarrow> exn + item list" where
  "ItemController2_getUserForgotenItems f uid tbl = getUserItems f uid True tbl"

section \<open>UserFriendService\<close>

text \<open>A user entity with its \<open>friends\<close> relation loaded.\<close>

datatype User = User (usr_id: int) (usr_name: string) (friends: "User list")

text \<open>\<open>findOne({where: {id}})\<close>: the first user with this id, or \<open>null\<close>.\<close>

definition findOne :: "fault \<Rightarrow> int \<Rightarrow> User list \<Rightarrow> exn + User option" where
  "findOne f uid users = respond f (find (\<lambda>u. usr_id u = uid) users)"

definition checkIfFriends_try :: "fault \<Rightarrow> fault \<Rightarrow> int \<Rightarrow> int \<Rightarrow> User list \<Rightarrow> exn + bool" where
  "checkIfFriends_try f1 f2 userId friendId users =
     (case findOne f1 userId users of
        Inl err \<Rightarrow> Inl err
      | Inr None \<Rightarrow> Inl (NotFoundException ''User not found.'')
      | Inr (Some user) \<Rightarrow>
          (case findOne f2 friendId users of
             Inl err \<Rightarrow> Inl err
           | Inr None \<Rightarrow> Inl (NotFoundException ''Friend not found.'')
           | Inr (Some friend) \<Rightarrow>
               (let isFriend = list_ex (\<lambda>f. usr_id f = friendId) (friends user) in
                if isFriend then Inl (ConflictException ''The specified users are friends.'')
                else Inr False)))"

text \<open>The \<open>catch\<close> block rethrows the two specific exceptions and replaces any other.\<close>

definition checkIfFriends :: "fault \<Rightarrow> fault \<Rightarrow> int \<Rightarrow> int \<Rightarrow> User list \<Rightarrow> exn + bool" where
  "checkIfFriends f1 f2 userId friendId users =
     (case checkIfFriends_try f1 f2 userId friendId users of
        Inl (NotFoundException m) \<Rightarrow> Inl (NotFoundException m)
      | Inl (ConflictException m) \<Rightarrow> Inl (ConflictException m)
      | Inl err \<Rightarrow> Inl (InternalServerErrorException ''Failed to check friendship status. Please try again.'')
      | Inr b \<Rightarrow> Inr b)"

section \<open>UserController\<close>

record UserDto =
  user_name :: string
  email :: string
  user_dto_id :: int
  telephone :: string
  address :: string
  imageUrl :: string

definition UserController_checkIfFriends ::
  "fault \<Rightarrow> fault \<Rightarrow> int \<Rightarrow> int \<Rightarrow> User list \<Rightarrow> exn + bool" where
  "UserController_checkIfFriends f1 f2 userId friendId users =
     (case checkIfFriends f1 f2 userId friendId users of
        Inl error \<Rightarrow> Inl (RpcException (message error))
      | Inr b \<Rightarrow> Inr b)"

text \<open>
  \<open>userService_getUser\<close> stands for \<open>UserService.getUser\<close>, whose result is a user record or
  an error.
\<close>

definition UserController_getUser ::
  "(int \<Rightarrow> exn + UserDto) \<Rightarrow> int \<Rightarrow> int \<Rightarrow> UserDto cache \<Rightarrow> (exn + UserDto) \<times> UserDto cache" where
  "UserController_getUser userService_getUser now uid c =
     (case cache_get c now ''getUser'' of
        Some cachedUser \<Rightarrow> (Inr cachedUser, c)
      | None \<Rightarrow>
          (case userService_getUser uid of
             Inl error \<Rightarrow> (Inl (RpcException (message error)), c)
           | Inr user \<Rightarrow> (Inr user, cache_set c now ''getUser'' user 18000)))"

section \<open>Exchange creation in the source\<close>

text \<open>
  The item controller serves the tagging message by calling the service and rethrowing an
  error as an \<open>RpcException\<close>. It names the service method \<open>addExchangeToItems\<close>; the service
  at hand calls it \<open>addExchangeIdToItem\<close>.
\<close>

definition ItemController_addExchangeIdToItem ::
  "fault \<Rightarrow> ToggleExchangeToItemDto \<Rightarrow> item list \<Rightarrow> (exn + item list) \<times> item list" where
  "ItemController_addExchangeIdToItem f addExchangeIdToItemDto tbl =
     (case addExchangeIdToItem f addExchangeIdToItemDto tbl of
        (Inl error, tbl') \<Rightarrow> (Inl (RpcException (message error)), tbl')
      | (Inr rows, tbl') \<Rightarrow> (Inr rows, tbl'))"






section \<open>The Exchange Lifecycle Coordinator\<close>

text \<open>
  The controller of the exchange service hands every message to \<open>ExchangeService\<close>
  (\<open>createExchange\<close>, \<open>changeExchangeStatus\<close>, \<open>getCodeForExchnageBox\<close>,
  \<open>openBoxViaExhcnage\<close>), and that service is not among the sources. The coordinator
  below is therefore written from the specification: its data model (section 3), its state
  machine and operations (section 4), its collaborator contracts (section 6) and its
  failure kinds (section 7). It is the design the specification lays down, with each
  operation one atomic unit. What the specification reports of the source itself, the
  exchange creation by sequential calls above and the status change further down, is kept
  apart from it.
\<close>

text \<open>Modelled from the spec: the states of the Exchange State Machine (\<open>ExchangeService\<close> is missing).\<close>

datatype status =
  PROPOSED | ITEMS_COMMITTED | BOX_ASSIGNED | AWAITING_PICKUP | COMPLETED | CANCELLED | EXPIRED

text \<open>Modelled from the spec: the two roles of a box opening (\<open>ExchangeService\<close> is missing).\<close>

datatype role = creator | pickup

text \<open>
  Modelled from the spec: the failure kinds of section 7 (\<open>ExchangeService\<close> is missing).
  The spec demands a non-empty item list of a proposal without naming the failure;
  it is \<open>InvalidRequest\<close> here.
\<close>

datatype failure =
    ItemConflict | NoCapacity | InvalidCode | InvalidRole | StateConflict
  | InvalidCancellation | NotFound | DependencyUnavailable | InvalidRequest

text \<open>
  Modelled from the spec: the Exchange record (\<open>ExchangeService\<close> is missing). The spec
  speaks of a pickup deadline without saying where it is kept; it is stored with the
  exchange, and set when the box is assigned.
\<close>

record exchange =
  initiator :: nat
  counterpart :: nat
  status :: status
  box :: "nat option"
  created :: nat
  status_changed :: nat
  exchange_items :: "nat list"
  deadline :: "nat option"

text \<open>Modelled from the spec: the Box Access Code (\<open>ExchangeService\<close> is missing).\<close>

record access_code =
  scope :: nat
  code_value :: nat
  issued_for :: role
  issued :: nat
  consumed :: bool
  expiry :: nat

text \<open>
  Modelled from the spec: an item as the Item Ownership Ledger of sections 3 and 6 holds
  it, its tag and its dimensions. The coordinator of the specification consumes a Ledger
  that meets the contracts of section 6; \<open>ExchangeService\<close>, which calls it, is missing, and
  \<open>ItemService\<close>, embedded above, is the item store of the source and does not meet them.
\<close>

record ledger_item =
  tag :: "nat option"
  dimensions :: "nat \<times> nat \<times> nat"

text \<open>Modelled from the spec: the Box Assignment (the Box Registry is missing).\<close>

record box_assignment =
  capacity_class :: nat
  occupied_by :: "nat option"

text \<open>
  Modelled from the spec: everything the coordinator and its collaborators hold
  (\<open>ExchangeService\<close> is missing): the exchanges, the Ledger, the Box Registry and the
  codes of the Code Generator.
\<close>

record system =
  exchanges :: "nat \<rightharpoonup> exchange"
  ledger :: "nat \<rightharpoonup> ledger_item"
  registry :: "(nat \<times> box_assignment) list"
  codes :: "access_code list"
  next_exchange :: nat

text \<open>Modelled from the spec: whether the two collaborators answer (\<open>DependencyUnavailable\<close> otherwise); the collaborators are missing.\<close>

record env =
  ledger_up :: bool
  registry_up :: bool

text \<open>Modelled from the spec: what an operation of the coordinator answers (\<open>ExchangeService\<close> is missing).\<close>

datatype reply =
    Created nat
  | Transitioned status
  | Issued nat
  | Projection status "nat option" "nat option"

subsection \<open>Collaborator contracts\<close>

text \<open>
  Modelled from the spec: the contract \<open>Ledger.tagItems\<close> of section 6, as the coordinator
  of the specification consumes it (\<open>ExchangeService\<close> is missing). It tags items that are
  untagged, accepts items already tagged to the same exchange (retry), and fails on an
  unknown item or on an item tagged to another exchange. This is not the tagging of the
  source: \<open>ItemService.addExchangeIdToItem\<close>, embedded above, overwrites any tag, passes
  over unknown ids and knows neither \<open>ItemConflict\<close> nor \<open>NotFound\<close>.
\<close>

fun tagItems :: "(nat \<rightharpoonup> ledger_item) \<Rightarrow> nat list \<Rightarrow> nat \<Rightarrow> failure + (nat \<rightharpoonup> ledger_item)" where
  "tagItems l [] e = Inr l"
| "tagItems l (i # ids) e =
     (case l i of
        None \<Rightarrow> Inl NotFound
      | Some it \<Rightarrow>
          if tag it = None \<or> tag it = Some e
          then tagItems (l(i \<mapsto> it\<lparr>tag := Some e\<rparr>)) ids e
          else Inl ItemConflict)"

text \<open>
  Modelled from the spec: the check of the transition to \<open>ITEMS_COMMITTED\<close> of section
  4.1, that no listed item is tagged to another exchange (\<open>ExchangeService\<close> is missing).
  This is not the check of the source: \<open>ItemService.retrieveItemSizesAndCheckExchange\<close>,
  embedded above, refuses any non-null tag, also the one of the exchange itself, with one
  generic error, and passes over unknown ids.
\<close>

fun confirmItems :: "(nat \<rightharpoonup> ledger_item) \<Rightarrow> nat list \<Rightarrow> nat \<Rightarrow> failure option" where
  "confirmItems l [] e = None"
| "confirmItems l (i # ids) e =
     (case l i of
        None \<Rightarrow> Some NotFound
      | Some it \<Rightarrow>
          if tag it = None \<or> tag it = Some e then confirmItems l ids e else Some ItemConflict)"

text \<open>
  Modelled from the spec: the contract \<open>Ledger.clearTags\<close> of section 6, as the coordinator
  of the specification consumes it (\<open>ExchangeService\<close> is missing); in the source it is
  \<open>ItemService.deleteExchangeFromItems\<close>, embedded above.
\<close>

fun clearTags :: "(nat \<rightharpoonup> ledger_item) \<Rightarrow> nat list \<Rightarrow> (nat \<rightharpoonup> ledger_item)" where
  "clearTags l [] = l"
| "clearTags l (i # ids) =
     (case l i of
        None \<Rightarrow> clearTags l ids
      | Some it \<Rightarrow> clearTags (l(i \<mapsto> it\<lparr>tag := None\<rparr>)) ids)"

text \<open>
  Modelled from the spec: the contract \<open>Ledger.getItemDimensions\<close> of section 6, as the
  coordinator of the specification consumes it (\<open>ExchangeService\<close> is missing).
\<close>

definition getItemDimensions ::
  "(nat \<rightharpoonup> ledger_item) \<Rightarrow> nat list \<Rightarrow> (nat \<times> nat \<times> nat \<times> nat) list" where
  "getItemDimensions l ids =
     List.map_filter (\<lambda>i. map_option (\<lambda>it. (i, dimensions it)) (l i)) ids"

text \<open>
  Modelled from the spec: \<open>BoxRegistry.reserve\<close> (the Box Registry is missing): the first
  free box of adequate capacity, occupied from now on by the exchange.
\<close>

definition reserve ::
  "(nat \<times> box_assignment) list \<Rightarrow> nat \<Rightarrow> nat \<Rightarrow> failure + nat \<times> (nat \<times> box_assignment) list" where
  "reserve r need e =
     (case find (\<lambda>(b, a). occupied_by a = None \<and> need \<le> capacity_class a) r of
        None \<Rightarrow> Inl NoCapacity
      | Some (b, a) \<Rightarrow>
          Inr (b, map (\<lambda>(b', a'). if b' = b then (b', a'\<lparr>occupied_by := Some e\<rparr>) else (b', a')) r))"

text \<open>Modelled from the spec: \<open>BoxRegistry.release\<close> (the Box Registry is missing).\<close>

definition release :: "(nat \<times> box_assignment) list \<Rightarrow> nat \<Rightarrow> (nat \<times> box_assignment) list" where
  "release r b = map (\<lambda>(b', a'). if b' = b then (b', a'\<lparr>occupied_by := None\<rparr>) else (b', a')) r"

subsection \<open>Code Generator\<close>

text \<open>
  Modelled from the spec: a code can be used while it is unconsumed and unexpired; at its
  expiry instant it is expired (the Code Generator is missing).
\<close>

definition usable :: "nat \<Rightarrow> access_code \<Rightarrow> bool" where
  "usable now c = (\<not> consumed c \<and> now < expiry c)"

text \<open>
  Modelled from the spec: \<open>issue\<close> (the Code Generator is missing). The prior unconsumed
  codes of the same exchange and role are invalidated; the value of the new code, which
  must be unpredictable, is given by the caller of the model.
\<close>

definition issue :: "access_code list \<Rightarrow> nat \<Rightarrow> role \<Rightarrow> nat \<Rightarrow> nat \<Rightarrow> nat \<Rightarrow> access_code list" where
  "issue cs e r now ttl v =
     map (\<lambda>c. if scope c = e \<and> issued_for c = r \<and> \<not> consumed c then c\<lparr>consumed := True\<rparr> else c) cs
     @ [\<lparr>scope = e, code_value = v, issued_for = r, issued = now, consumed = False,
         expiry = now + ttl\<rparr>]"

text \<open>Modelled from the spec: \<open>validate\<close> (the Code Generator is missing).\<close>

definition validate :: "access_code list \<Rightarrow> nat \<Rightarrow> nat \<Rightarrow> nat \<Rightarrow> failure + role" where
  "validate cs e v now =
     (case find (\<lambda>c. scope c = e \<and> code_value c = v \<and> usable now c) cs of
        None \<Rightarrow> Inl InvalidCode
      | Some c \<Rightarrow> Inr (issued_for c))"

text \<open>Modelled from the spec: marking the presented code consumed (the Code Generator is missing).\<close>

definition consume :: "access_code list \<Rightarrow> nat \<Rightarrow> nat \<Rightarrow> access_code list" where
  "consume cs e v =
     map (\<lambda>c. if scope c = e \<and> code_value c = v then c\<lparr>consumed := True\<rparr> else c) cs"

subsection \<open>Exchange State Machine\<close>

text \<open>
  Modelled from the spec: the pickup deadline has elapsed for an exchange that is still
  \<open>BOX_ASSIGNED\<close> or \<open>AWAITING_PICKUP\<close> (\<open>ExchangeService\<close> is missing).
\<close>

definition lapsed :: "exchange \<Rightarrow> nat \<Rightarrow> bool" where
  "lapsed x now =
     ((status x = BOX_ASSIGNED \<or> status x = AWAITING_PICKUP) \<and>
      (case deadline x of None \<Rightarrow> False | Some d \<Rightarrow> d \<le> now))"

text \<open>
  Modelled from the spec: expiry is re-evaluated on access, so the status an operation
  acts on is \<open>EXPIRED\<close> once the deadline has elapsed (\<open>ExchangeService\<close> is missing).
\<close>

definition current_status :: "exchange \<Rightarrow> nat \<Rightarrow> status" where
  "current_status x now = (if lapsed x now then EXPIRED else status x)"

text \<open>Modelled from the spec: the write of a new status (\<open>ExchangeService\<close> is missing).\<close>

definition set_status :: "system \<Rightarrow> nat \<Rightarrow> exchange \<Rightarrow> status \<Rightarrow> nat \<Rightarrow> system" where
  "set_status s e x st now =
     s\<lparr>exchanges := (exchanges s)(e \<mapsto> x\<lparr>status := st, status_changed := now\<rparr>)\<rparr>"

text \<open>
  Modelled from the spec: a transition is one atomic unit with the status write; when any
  step of it fails, the state before the call is restored (\<open>ExchangeService\<close> is missing).
\<close>

definition atomically :: "system \<Rightarrow> (failure + reply) \<times> system \<Rightarrow> (failure + reply) \<times> system" where
  "atomically s outcome = (case fst outcome of Inl f \<Rightarrow> (Inl f, s) | Inr r \<Rightarrow> outcome)"

text \<open>
  Modelled from the spec: the end of an exchange in \<open>COMPLETED\<close>, \<open>CANCELLED\<close> or
  \<open>EXPIRED\<close>: the status is written, the tags of its items are cleared by the Ledger and
  its box, if any, is released by the Box Registry (\<open>ExchangeService\<close> is missing).
\<close>

definition retire_steps ::
  "env \<Rightarrow> nat \<Rightarrow> nat \<Rightarrow> exchange \<Rightarrow> status \<Rightarrow> system \<Rightarrow> (failure + reply) \<times> system" where
  "retire_steps ev now e x st s =
     (let s1 = set_status s e x st now in
      if \<not> ledger_up ev then (Inl DependencyUnavailable, s1)
      else
        let s2 = s1\<lparr>ledger := clearTags (ledger s1) (exchange_items x)\<rparr> in
        case box x of
          None \<Rightarrow> (Inr (Transitioned st), s2)
        | Some b \<Rightarrow>
            if \<not> registry_up ev then (Inl DependencyUnavailable, s2)
            else (Inr (Transitioned st), s2\<lparr>registry := release (registry s2) b\<rparr>))"

subsection \<open>Operations of the coordinator\<close>

text \<open>
  Modelled from the spec: \<open>proposeExchange\<close> (\<open>ExchangeService.createExchange\<close> is
  missing). The Exchange record is created first, then the Ledger tags the items.
\<close>

definition proposeExchange_steps ::
  "env \<Rightarrow> nat \<Rightarrow> nat \<Rightarrow> nat \<Rightarrow> nat list \<Rightarrow> system \<Rightarrow> (failure + reply) \<times> system" where
  "proposeExchange_steps ev now ini cp ids s =
     (if ids = [] then (Inl InvalidRequest, s)
      else
        let e = next_exchange s;
            x = \<lparr>initiator = ini, counterpart = cp, status = PROPOSED, box = None,
                 created = now, status_changed = now, exchange_items = ids, deadline = None\<rparr>;
            s1 = s\<lparr>exchanges := (exchanges s)(e \<mapsto> x), next_exchange := Suc e\<rparr>
        in if \<not> ledger_up ev then (Inl DependencyUnavailable, s1)
           else (case tagItems (ledger s1) ids e of
                   Inl f \<Rightarrow> (Inl f, s1)
                 | Inr l \<Rightarrow> (Inr (Created e), s1\<lparr>ledger := l\<rparr>)))"

text \<open>Modelled from the spec: \<open>proposeExchange\<close> as one atomic unit (\<open>ExchangeService.createExchange\<close> is missing).\<close>

definition proposeExchange ::
  "env \<Rightarrow> nat \<Rightarrow> nat \<Rightarrow> nat \<Rightarrow> nat list \<Rightarrow> system \<Rightarrow> (failure + reply) \<times> system" where
  "proposeExchange ev now ini cp ids s = atomically s (proposeExchange_steps ev now ini cp ids s)"

text \<open>
  Modelled from the spec: the transition \<open>PROPOSED \<rightarrow> ITEMS_COMMITTED\<close>
  (\<open>ExchangeService\<close> is missing).
\<close>

definition commitItems_steps :: "env \<Rightarrow> nat \<Rightarrow> nat \<Rightarrow> system \<Rightarrow> (failure + reply) \<times> system" where
  "commitItems_steps ev now e s =
     (case exchanges s e of
        None \<Rightarrow> (Inl NotFound, s)
      | Some x \<Rightarrow>
          if status x \<noteq> PROPOSED then (Inl StateConflict, s)
          else if \<not> ledger_up ev then (Inl DependencyUnavailable, s)
          else (case confirmItems (ledger s) (exchange_items x) e of
                  Some f \<Rightarrow> (Inl f, s)
                | None \<Rightarrow> (Inr (Transitioned ITEMS_COMMITTED), set_status s e x ITEMS_COMMITTED now)))"

text \<open>Modelled from the spec: the commit of the items as one atomic unit (\<open>ExchangeService\<close> is missing).\<close>

definition commitItems :: "env \<Rightarrow> nat \<Rightarrow> nat \<Rightarrow> system \<Rightarrow> (failure + reply) \<times> system" where
  "commitItems ev now e s = atomically s (commitItems_steps ev now e s)"

text \<open>
  Modelled from the spec: the transition \<open>ITEMS_COMMITTED \<rightarrow> BOX_ASSIGNED\<close>
  (\<open>ExchangeService\<close> is missing). \<open>cap\<close> is the capacity class required by a list of
  item dimensions, which the spec leaves to a surrounding component; \<open>window\<close> is the time
  allowed until pickup.
\<close>

definition reserveBox_steps ::
  "env \<Rightarrow> ((nat \<times> nat \<times> nat \<times> nat) list \<Rightarrow> nat) \<Rightarrow> nat \<Rightarrow> nat \<Rightarrow> nat \<Rightarrow> system
     \<Rightarrow> (failure + reply) \<times> system" where
  "reserveBox_steps ev cap now window e s =
     (case exchanges s e of
        None \<Rightarrow> (Inl NotFound, s)
      | Some x \<Rightarrow>
          if status x \<noteq> ITEMS_COMMITTED then (Inl StateConflict, s)
          else if \<not> ledger_up ev \<or> \<not> registry_up ev then (Inl DependencyUnavailable, s)
          else (case reserve (registry s) (cap (getItemDimensions (ledger s) (exchange_items x))) e of
                  Inl f \<Rightarrow> (Inl f, s)
                | Inr (b, r) \<Rightarrow>
                    (Inr (Transitioned BOX_ASSIGNED),
                     s\<lparr>exchanges := (exchanges s)(e \<mapsto>
                          x\<lparr>status := BOX_ASSIGNED, status_changed := now,
                            box := Some b, deadline := Some (now + window)\<rparr>),
                       registry := r\<rparr>)))"

text \<open>
  Modelled from the spec: \<open>assignBox\<close> (\<open>ExchangeService\<close> is missing). Called on a
  \<open>PROPOSED\<close> exchange (scenario A) it commits the items first.
\<close>

definition assignBox_steps ::
  "env \<Rightarrow> ((nat \<times> nat \<times> nat \<times> nat) list \<Rightarrow> nat) \<Rightarrow> nat \<Rightarrow> nat \<Rightarrow> nat \<Rightarrow> system
     \<Rightarrow> (failure + reply) \<times> system" where
  "assignBox_steps ev cap now window e s =
     (case exchanges s e of
        None \<Rightarrow> (Inl NotFound, s)
      | Some x \<Rightarrow>
          if status x = PROPOSED
          then (case commitItems_steps ev now e s of
                  (Inl f, s1) \<Rightarrow> (Inl f, s1)
                | (Inr r, s1) \<Rightarrow> reserveBox_steps ev cap now window e s1)
          else reserveBox_steps ev cap now window e s)"

text \<open>Modelled from the spec: \<open>assignBox\<close> as one atomic unit (\<open>ExchangeService\<close> is missing).\<close>

definition assignBox ::
  "env \<Rightarrow> ((nat \<times> nat \<times> nat \<times> nat) list \<Rightarrow> nat) \<Rightarrow> nat \<Rightarrow> nat \<Rightarrow> nat \<Rightarrow> system
     \<Rightarrow> (failure + reply) \<times> system" where
  "assignBox ev cap now window e s = atomically s (assignBox_steps ev cap now window e s)"

text \<open>
  Modelled from the spec: \<open>requestBoxOpen\<close> (\<open>ExchangeService.getCodeForExchnageBox\<close> is
  missing): a creator code while \<open>BOX_ASSIGNED\<close>, a pickup code while
  \<open>AWAITING_PICKUP\<close>, \<open>InvalidRole\<close> otherwise.
\<close>

definition requestBoxOpen ::
  "env \<Rightarrow> nat \<Rightarrow> nat \<Rightarrow> role \<Rightarrow> nat \<Rightarrow> nat \<Rightarrow> system \<Rightarrow> (failure + reply) \<times> system" where
  "requestBoxOpen ev now e r ttl v s =
     atomically s
       (case exchanges s e of
          None \<Rightarrow> (Inl NotFound, s)
        | Some x \<Rightarrow>
            let st = current_status x now in
            if (st = BOX_ASSIGNED \<and> r = creator) \<or> (st = AWAITING_PICKUP \<and> r = pickup)
            then (Inr (Issued v), s\<lparr>codes := issue (codes s) e r now ttl v\<rparr>)
            else (Inl InvalidRole, s))"

text \<open>
  Modelled from the spec: \<open>consumeBoxOpen\<close> (\<open>ExchangeService.openBoxViaExhcnage\<close> is
  missing): the code is validated and marked consumed, then the state machine advances
  per role.
\<close>

definition consumeBoxOpen_steps :: "env \<Rightarrow> nat \<Rightarrow> nat \<Rightarrow> nat \<Rightarrow> system \<Rightarrow> (failure + reply) \<times> system" where
  "consumeBoxOpen_steps ev now e v s =
     (case exchanges s e of
        None \<Rightarrow> (Inl NotFound, s)
      | Some x \<Rightarrow>
          (case validate (codes s) e v now of
             Inl f \<Rightarrow> (Inl f, s)
           | Inr r \<Rightarrow>
               let s1 = s\<lparr>codes := consume (codes s) e v\<rparr>;
                   st = current_status x now
               in if st = BOX_ASSIGNED \<and> r = creator
                  then (Inr (Transitioned AWAITING_PICKUP), set_status s1 e x AWAITING_PICKUP now)
                  else if st = AWAITING_PICKUP \<and> r = pickup
                  then retire_steps ev now e x COMPLETED s1
                  else (Inl StateConflict, s1)))"

text \<open>Modelled from the spec: \<open>consumeBoxOpen\<close> as one atomic unit (\<open>ExchangeService.openBoxViaExhcnage\<close> is missing).\<close>

definition consumeBoxOpen :: "env \<Rightarrow> nat \<Rightarrow> nat \<Rightarrow> nat \<Rightarrow> system \<Rightarrow> (failure + reply) \<times> system" where
  "consumeBoxOpen ev now e v s = atomically s (consumeBoxOpen_steps ev now e v s)"

text \<open>Modelled from the spec: \<open>cancelExchange\<close> (\<open>ExchangeService\<close> is missing).\<close>

definition cancelExchange :: "env \<Rightarrow> nat \<Rightarrow> nat \<Rightarrow> system \<Rightarrow> (failure + reply) \<times> system" where
  "cancelExchange ev now e s =
     atomically s
       (case exchanges s e of
          None \<Rightarrow> (Inl NotFound, s)
        | Some x \<Rightarrow>
            let st = current_status x now in
            if st = COMPLETED \<or> st = CANCELLED \<or> st = EXPIRED then (Inl InvalidCancellation, s)
            else retire_steps ev now e x CANCELLED s)"

text \<open>
  Modelled from the spec: the transition to \<open>EXPIRED\<close>, as a background sweep fires it for
  one exchange (\<open>ExchangeService\<close> is missing).
\<close>

definition expireExchange :: "env \<Rightarrow> nat \<Rightarrow> nat \<Rightarrow> system \<Rightarrow> (failure + reply) \<times> system" where
  "expireExchange ev now e s =
     atomically s
       (case exchanges s e of
          None \<Rightarrow> (Inl NotFound, s)
        | Some x \<Rightarrow>
            if lapsed x now then retire_steps ev now e x EXPIRED s
            else (Inl StateConflict, s))"

text \<open>
  Modelled from the spec: \<open>getStatus\<close>, the read-only projection of status, box and code
  expiry (\<open>ExchangeService\<close> is missing).
\<close>

definition getStatus :: "nat \<Rightarrow> nat \<Rightarrow> system \<Rightarrow> failure + reply" where
  "getStatus now e s =
     (case exchanges s e of
        None \<Rightarrow> Inl NotFound
      | Some x \<Rightarrow>
          Inr (Projection (current_status x now) (box x)
                 (case filter (\<lambda>c. scope c = e \<and> \<not> consumed c) (codes s) of
                    [] \<Rightarrow> None
                  | c # cs \<Rightarrow> Some (expiry c))))"

text \<open>Modelled from the spec: a call of the coordinator (\<open>ExchangeService\<close> is missing).\<close>

datatype request =
    ProposeExchange nat nat "nat list"
  | CommitItems nat
  | AssignBox nat nat
  | RequestBoxOpen nat role nat nat
  | ConsumeBoxOpen nat nat
  | CancelExchange nat
  | ExpireExchange nat
  | GetStatus nat

text \<open>Modelled from the spec: the coordinator serving one call at time \<open>now\<close> (\<open>ExchangeService\<close> is missing).\<close>

fun perform ::
  "env \<Rightarrow> ((nat \<times> nat \<times> nat \<times> nat) list \<Rightarrow> nat) \<Rightarrow> nat \<Rightarrow> request \<Rightarrow> system
     \<Rightarrow> (failure + reply) \<times> system" where
  "perform ev cap now (ProposeExchange ini cp ids) s = proposeExchange ev now ini cp ids s"
| "perform ev cap now (CommitItems e) s = commitItems ev now e s"
| "perform ev cap now (AssignBox e window) s = assignBox ev cap now window e s"
| "perform ev cap now (RequestBoxOpen e r ttl v) s = requestBoxOpen ev now e r ttl v s"
| "perform ev cap now (ConsumeBoxOpen e v) s = consumeBoxOpen ev now e v s"
| "perform ev cap now (CancelExchange e) s = cancelExchange ev now e s"
| "perform ev cap now (ExpireExchange e) s = expireExchange ev now e s"
| "perform ev cap now (GetStatus e) s = (getStatus now e s, s)"

text \<open>
  Modelled from the spec: a sequence of calls, each with its environment and its time
  (\<open>ExchangeService\<close> is missing).
\<close>

fun run ::
  "((nat \<times> nat \<times> nat \<times> nat) list \<Rightarrow> nat) \<Rightarrow> (env \<times> nat \<times> request) list \<Rightarrow> system \<Rightarrow> system" where
  "run cap [] s = s"
| "run cap ((ev, now, rq) # calls) s = run cap calls (snd (perform ev cap now rq s))"

text \<open>
  Modelled from the spec: the system before any exchange was proposed, with the items of
  the Ledger and the boxes of the Box Registry (\<open>ExchangeService\<close> is missing).
\<close>

definition initial :: "(nat \<rightharpoonup> ledger_item) \<Rightarrow> (nat \<times> box_assignment) list \<Rightarrow> system" where
  "initial l r = \<lparr>exchanges = Map.empty, ledger = l, registry = r, codes = [], next_exchange = 0\<rparr>"

subsection \<open>The status change of the source\<close>




section \<open>Notions used in the proofs\<close>

text \<open>The unconsumed codes of an exchange.\<close>

definition open_in :: "access_code list \<Rightarrow> nat \<Rightarrow> access_code list" where
  "open_in cs e = filter (\<lambda>c. scope c = e \<and> \<not> consumed c) cs"

text \<open>
  The roles an unconsumed code of an exchange may have, by the stored status of the
  exchange: none before a box is assigned, the creator while \<open>BOX_ASSIGNED\<close>, the pickup
  person while \<open>AWAITING_PICKUP\<close>, any role once the exchange has ended.
\<close>

fun permits :: "status \<Rightarrow> role \<Rightarrow> bool" where
  "permits PROPOSED r = False"
| "permits ITEMS_COMMITTED r = False"
| "permits BOX_ASSIGNED r = (r = creator)"
| "permits AWAITING_PICKUP r = (r = pickup)"
| "permits COMPLETED r = True"
| "permits CANCELLED r = True"
| "permits EXPIRED r = True"

text \<open>
  The invariant of the codes: every exchange has at most one unconsumed code, an unconsumed
  code belongs to a known exchange whose status permits its role, and no exchange is known
  under an identifier that has not been given out yet.
\<close>

definition codes_ok :: "(nat \<rightharpoonup> exchange) \<Rightarrow> access_code list \<Rightarrow> nat \<Rightarrow> bool" where
  "codes_ok ex cs n =
     (\<forall>e. length (open_in cs e) \<le> 1 \<and>
          (\<forall>c \<in> set (open_in cs e). \<exists>x. ex e = Some x \<and> permits (status x) (issued_for c)) \<and>
          (n \<le> e \<longrightarrow> ex e = None))"

definition code_inv :: "system \<Rightarrow> bool" where
  "code_inv s = codes_ok (exchanges s) (codes s) (next_exchange s)"

text \<open>Every code of the exchange with this value has been consumed.\<close>

definition spent :: "access_code list \<Rightarrow> nat \<Rightarrow> nat \<Rightarrow> bool" where
  "spent cs e v = list_all (\<lambda>c. scope c = e \<and> code_value c = v \<longrightarrow> consumed c) cs"

section \<open>Example data\<close>

text \<open>Concrete tables, users and systems on which the theorems below are instantiated.\<close>

definition drill :: item where
  "drill = \<lparr>id_col = 1, user_id = 10, friend_id = 20, exchange_id = Some 5,
            length_col = 30, width_col = 8, height_col = 25, name_col = ''drill'', weight = 1800\<rparr>"

definition ladder :: item where
  "ladder = \<lparr>id_col = 2, user_id = 20, friend_id = 10, exchange_id = None,
             length_col = 200, width_col = 40, height_col = 10, name_col = ''ladder'', weight = 7000\<rparr>"


definition alice :: UserDto where
  "alice = \<lparr>user_name = ''Alice'', email = ''alice@example.org'', user_dto_id = 1,
            telephone = ''111'', address = ''1 Main Street'', imageUrl = ''a.png''\<rparr>"

definition bob :: UserDto where
  "bob = \<lparr>user_name = ''Bob'', email = ''bob@example.org'', user_dto_id = 2,
          telephone = ''222'', address = ''2 Main Street'', imageUrl = ''b.png''\<rparr>"

definition directory :: "int \<Rightarrow> exn + UserDto" where
  "directory uid =
     (if uid = 1 then Inr alice
      else if uid = 2 then Inr bob
      else Inl (NotFoundException ''User not found''))"

definition ann_and_ben :: "User list" where
  "ann_and_ben = [User 1 ''Ann'' [User 2 ''Ben'' []], User 2 ''Ben'' [User 1 ''Ann'' []]]"

definition shelf :: "nat \<rightharpoonup> ledger_item" where
  "shelf = [1 \<mapsto> \<lparr>tag = None, dimensions = (1, 1, 1)\<rparr>,
            2 \<mapsto> \<lparr>tag = None, dimensions = (2, 2, 2)\<rparr>,
            3 \<mapsto> \<lparr>tag = Some 99, dimensions = (1, 1, 1)\<rparr>]"

definition lockers :: "(nat \<times> box_assignment) list" where
  "lockers = [(7, \<lparr>capacity_class = 5, occupied_by = None\<rparr>)]"

definition up :: env where
  "up = \<lparr>ledger_up = True, registry_up = True\<rparr>"

definition item_count :: "(nat \<times> nat \<times> nat \<times> nat) list \<Rightarrow> nat" where
  "item_count ds = length ds"

text \<open>
  The calls of scenario A of the specification: items 1 and 2 are proposed by user 10 to
  user 20, a box is assigned, the creator deposits with code 4242 and the pickup person
  collects with code 777.
\<close>

definition handover :: "(env \<times> nat \<times> request) list" where
  "handover =
     [(up, 10, ProposeExchange 10 20 [1, 2]),
      (up, 11, AssignBox 0 100),
      (up, 12, RequestBoxOpen 0 creator 5 4242),
      (up, 13, ConsumeBoxOpen 0 4242),
      (up, 14, RequestBoxOpen 0 pickup 5 777),
      (up, 15, ConsumeBoxOpen 0 777)]"

definition deposit_pending :: system where
  "deposit_pending = run item_count (take 3 handover) (initial shelf lockers)"

definition pickup_pending :: system where
  "pickup_pending = run item_count (take 5 handover) (initial shelf lockers)"

definition creator_code :: access_code where
  "creator_code = \<lparr>scope = 0, code_value = 4242, issued_for = creator, issued = 12,
                    consumed = False, expiry = 17\<rparr>"

definition pickup_code :: access_code where
  "pickup_code = \<lparr>scope = 0, code_value = 777, issued_for = pickup, issued = 14,
                   consumed = False, expiry = 19\<rparr>"



section \<open>Properties of the item service\<close>

lemma update_exchange_id_length: "length (update_exchange_id v ids tbl) = length tbl"
  by (simp add: update_exchange_id_def)

lemma update_exchange_id_nth:
  "i < length tbl \<Longrightarrow>
   update_exchange_id v ids tbl ! i =
     (if id_col (tbl ! i) \<in> set ids then (tbl ! i)\<lparr>exchange_id := v\<rparr> else tbl ! i)"
  by (simp add: update_exchange_id_def in_ids_def)

lemma update_exchange_id_idem:
  "update_exchange_id v ids (update_exchange_id v ids tbl) = update_exchange_id v ids tbl"
  by (simp add: update_exchange_id_def in_ids_def)

lemma update_exchange_id_ids: "map id_col (update_exchange_id v ids tbl) = map id_col tbl"
  by (simp add: update_exchange_id_def in_ids_def)

lemma update_exchange_id_listed:
  "r \<in> set (update_exchange_id v ids tbl) \<Longrightarrow> id_col r \<in> set ids \<Longrightarrow> exchange_id r = v"
  by (auto simp add: update_exchange_id_def in_ids_def split: if_splits)

lemma retrieve_conflict:
  "list_ex (\<lambda>r. in_ids ids r \<and> exchange_id r \<noteq> None) tbl \<Longrightarrow>
   retrieveItemSizesAndCheckExchange f ids False tbl = Inl (Error ''Failed to fetch item sizes'')"
  by (cases f)
    (auto simp add: retrieveItemSizesAndCheckExchange_def retrieveItemSizes_try_def respond_def
      list_ex_iff split: sum.splits)

lemma retrieve_ok_untagged:
  "retrieveItemSizesAndCheckExchange f ids False tbl = Inr sizes \<Longrightarrow>
   r \<in> set tbl \<Longrightarrow> in_ids ids r \<Longrightarrow> exchange_id r = None"
  by (cases f)
    (auto simp add: retrieveItemSizesAndCheckExchange_def retrieveItemSizes_try_def respond_def
      list_ex_iff split: sum.splits if_splits)

lemma addExchangeIdToItem_table:
  "snd (addExchangeIdToItem f dto tbl) =
     (case f of
        Some m \<Rightarrow> tbl
      | None \<Rightarrow> update_exchange_id (Some (dto_exchange_id dto)) (item_ids dto) tbl)"
  by (simp add: addExchangeIdToItem_def Let_def split: option.splits)

text \<open>
  C2, as the claim states it, fails: \<open>addExchangeIdToItem\<close> checks nothing. The drill is
  tagged to exchange 5; tagging it to exchange 7 succeeds and overwrites the tag.
\<close>

theorem addExchangeIdToItem_retags_counterexample:
  "map exchange_id [drill] = [Some 5] \<and>
   fst (addExchangeIdToItem None \<lparr>dto_exchange_id = 7, item_ids = [1]\<rparr> [drill])
     = Inr [drill\<lparr>exchange_id := Some 7\<rparr>] \<and>
   map exchange_id (snd (addExchangeIdToItem None \<lparr>dto_exchange_id = 7, item_ids = [1]\<rparr> [drill]))
     = [Some 7]"
  by (simp add: addExchangeIdToItem_def Let_def update_exchange_id_def in_ids_def drill_def)

text \<open>
  C2, amended. If a listed item of the table carries a tag, the check
  \<open>retrieveItemSizesAndCheckExchange\<close> with \<open>udpate = false\<close> fails, with the one error it
  has for every failure. \<open>addExchangeIdToItem\<close> sets the tag of every listed row to the given
  exchange, whatever the tag was, and leaves the other rows as they are. A tagged row
  therefore keeps its tag when the check of the same ids on the same table succeeded before
  the tagging.
\<close>

theorem tagging_exclusive_after_check:
  "(list_ex (\<lambda>r. in_ids ids r \<and> exchange_id r \<noteq> None) tbl \<longrightarrow>
      retrieveItemSizesAndCheckExchange f ids False tbl = Inl (Error ''Failed to fetch item sizes'')) \<and>
   length (snd (addExchangeIdToItem None dto tbl)) = length tbl \<and>
   (\<forall>i < length tbl.
      snd (addExchangeIdToItem None dto tbl) ! i =
        (if id_col (tbl ! i) \<in> set (item_ids dto)
         then (tbl ! i)\<lparr>exchange_id := Some (dto_exchange_id dto)\<rparr>
         else tbl ! i)) \<and>
   (\<forall>sizes. retrieveItemSizesAndCheckExchange f (item_ids dto) False tbl = Inr sizes \<longrightarrow>
      (\<forall>i < length tbl. exchange_id (tbl ! i) \<noteq> None \<longrightarrow>
         snd (addExchangeIdToItem f' dto tbl) ! i = tbl ! i))"
proof -
  have "snd (addExchangeIdToItem f' dto tbl) ! i = tbl ! i"
    if ok: "retrieveItemSizesAndCheckExchange f (item_ids dto) False tbl = Inr sizes"
      and i: "i < length tbl" and tagged: "exchange_id (tbl ! i) \<noteq> None" for sizes i
  proof -
    from i have "tbl ! i \<in> set tbl" by simp
    with retrieve_ok_untagged [OF ok, of "tbl ! i"] tagged
    have "\<not> in_ids (item_ids dto) (tbl ! i)" by auto
    with i show ?thesis
      by (simp add: addExchangeIdToItem_table update_exchange_id_nth in_ids_def split: option.splits)
  qed
  then show ?thesis
    by (simp add: retrieve_conflict addExchangeIdToItem_table update_exchange_id_length
        update_exchange_id_nth)
qed

theorem tagging_exclusive_after_check_witness:
  "list_ex (\<lambda>r. in_ids [1, 2] r \<and> exchange_id r \<noteq> None) [drill, ladder] \<and>
   retrieveItemSizesAndCheckExchange None [1, 2] False [drill, ladder]
     = Inl (Error ''Failed to fetch item sizes'') \<and>
   retrieveItemSizesAndCheckExchange None [2] False [drill, ladder]
     = Inr [ItemSizeDto 200 40 10 2] \<and>
   (0::nat) < length [drill, ladder] \<and> exchange_id ([drill, ladder] ! 0) \<noteq> None \<and>
   snd (addExchangeIdToItem None \<lparr>dto_exchange_id = 7, item_ids = [2]\<rparr> [drill, ladder]) ! 0 = drill \<and>
   snd (addExchangeIdToItem None \<lparr>dto_exchange_id = 7, item_ids = [2]\<rparr> [drill, ladder]) ! 1
     = ladder\<lparr>exchange_id := Some 7\<rparr>"
proof -
  have tagged: "list_ex (\<lambda>r. in_ids [1, 2] r \<and> exchange_id r \<noteq> None) [drill, ladder]"
    by (simp add: in_ids_def drill_def)
  have ok: "retrieveItemSizesAndCheckExchange None [2] False [drill, ladder]
      = Inr [ItemSizeDto 200 40 10 2]"
    by (simp add: retrieveItemSizesAndCheckExchange_def retrieveItemSizes_try_def respond_def
        in_ids_def drill_def ladder_def)
  have row: "(0::nat) < length [drill, ladder] \<and> exchange_id ([drill, ladder] ! 0) \<noteq> None"
    by (simp add: drill_def)
  have ids: "id_col drill = 1 \<and> id_col ladder = 2"
    by (simp add: drill_def ladder_def)
  from tagging_exclusive_after_check
    [of "[1, 2]" "[drill, ladder]" None "\<lparr>dto_exchange_id = 7, item_ids = [2]\<rparr>" None]
    tagged
  have a: "retrieveItemSizesAndCheckExchange None [1, 2] False [drill, ladder]
      = Inl (Error ''Failed to fetch item sizes'')"
    by blast
  from tagging_exclusive_after_check
    [of "[2]" "[drill, ladder]" None "\<lparr>dto_exchange_id = 7, item_ids = [2]\<rparr>" None]
    ok row ids
  have b: "snd (addExchangeIdToItem None \<lparr>dto_exchange_id = 7, item_ids = [2]\<rparr> [drill, ladder]) ! 0
      = drill"
    by simp
  from tagging_exclusive_after_check
    [of "[2]" "[drill, ladder]" None "\<lparr>dto_exchange_id = 7, item_ids = [2]\<rparr>" None]
    ids
  have c: "snd (addExchangeIdToItem None \<lparr>dto_exchange_id = 7, item_ids = [2]\<rparr> [drill, ladder]) ! 1
      = ladder\<lparr>exchange_id := Some 7\<rparr>"
    by simp
  from tagged ok row a b c show ?thesis by simp
qed

text \<open>
  C3: the documentation of \<open>deleteItem\<close> promises an error when the item is part of an
  exchange. The error is thrown inside the \<open>try\<close> block, and the \<open>catch\<close> block turns it into
  the return value \<open>false\<close>: deleting the drill, which is tagged to exchange 5, answers
  \<open>false\<close>, exactly as deleting an item that does not exist or a refused database call
  does; the controller passes \<open>false\<close> on. Likewise the conflict found by
  \<open>retrieveItemSizesAndCheckExchange\<close> leaves it as the same error as a database fault.
\<close>

theorem deleteItem_swallows_conflict:
  "deleteItem_try None None 1 [drill]
     = (Inl (Error ''Item is in exchange and cannot be deleted.''), [drill]) \<and>
   deleteItem None None 1 [drill] = (False, [drill]) \<and>
   deleteItem None None 2 [drill] = (False, [drill]) \<and>
   deleteItem (Some ''connection refused'') None 1 [drill] = (False, [drill]) \<and>
   ItemController_deleteItem None None 1 [drill] = (Inr False, [drill]) \<and>
   retrieveItemSizes_try None [1] False [drill]
     = Inl (Error ''One or more items are already in an exchange'') \<and>
   retrieveItemSizesAndCheckExchange None [1] False [drill]
     = Inl (Error ''Failed to fetch item sizes'') \<and>
   retrieveItemSizesAndCheckExchange (Some ''connection refused'') [1] False [drill]
     = Inl (Error ''Failed to fetch item sizes'')"
  by (simp add: deleteItem_def deleteItem_try_def ItemController_deleteItem_def single_def
      truthy_def retrieveItemSizesAndCheckExchange_def retrieveItemSizes_try_def respond_def
      in_ids_def drill_def)

text \<open>
  C7: when the database executes the statement, \<open>deleteExchangeFromItems\<close> returns \<open>true\<close>
  and leaves every listed row of the table with a null \<open>exchange_id\<close>; running it again on
  the result returns \<open>true\<close> again and changes nothing. No row is added or removed.
\<close>

theorem deleteExchangeFromItems_idempotent:
  "fst (deleteExchangeFromItems None dto tbl) = Inr True \<and>
   (let tbl1 = snd (deleteExchangeFromItems None dto tbl) in
      deleteExchangeFromItems None dto tbl1 = (Inr True, tbl1) \<and>
      map id_col tbl1 = map id_col tbl \<and>
      (\<forall>r \<in> set tbl1. id_col r \<in> set (item_ids dto) \<longrightarrow> exchange_id r = None))"
  by (auto simp add: deleteExchangeFromItems_def Let_def update_exchange_id_idem
      update_exchange_id_ids dest: update_exchange_id_listed)

theorem deleteExchangeFromItems_idempotent_witness:
  "snd (deleteExchangeFromItems None \<lparr>dto_exchange_id = 5, item_ids = [1]\<rparr> [drill, ladder])
     = [drill\<lparr>exchange_id := None\<rparr>, ladder] \<and>
   drill\<lparr>exchange_id := None\<rparr> \<in> set [drill\<lparr>exchange_id := None\<rparr>, ladder] \<and>
   id_col (drill\<lparr>exchange_id := None\<rparr>) \<in> set [1] \<and>
   deleteExchangeFromItems None \<lparr>dto_exchange_id = 5, item_ids = [1]\<rparr>
       [drill\<lparr>exchange_id := None\<rparr>, ladder]
     = (Inr True, [drill\<lparr>exchange_id := None\<rparr>, ladder])"
proof -
  have t: "snd (deleteExchangeFromItems None \<lparr>dto_exchange_id = 5, item_ids = [1]\<rparr> [drill, ladder])
      = [drill\<lparr>exchange_id := None\<rparr>, ladder]"
    by (simp add: deleteExchangeFromItems_def update_exchange_id_def in_ids_def drill_def ladder_def)
  have i: "id_col (drill\<lparr>exchange_id := None\<rparr>) \<in> set [1]"
    by (simp add: drill_def)
  from deleteExchangeFromItems_idempotent
    [of "\<lparr>dto_exchange_id = 5, item_ids = [1]\<rparr>" "[drill, ladder]"] t i
  show ?thesis by (simp add: Let_def)
qed

section \<open>Properties of the exchange creation of the source\<close>


lemma ItemController_addExchangeIdToItem_failed:
  "fst (ItemController_addExchangeIdToItem f dto tbl) = Inl e \<Longrightarrow>
     snd (ItemController_addExchangeIdToItem f dto tbl) = tbl"
  by (cases f) (simp_all add: ItemController_addExchangeIdToItem_def addExchangeIdToItem_def Let_def)










section \<open>Properties of the controllers\<close>

lemma cache_get_set_same:
  "cache_get (cache_set c t0 k v ttl) t k = (if t \<le> t0 + ttl then Some v else None)"
  by (simp add: cache_get_def cache_set_def)

text \<open>
  C8: \<open>getUser\<close> reads and writes the cache under the one key \<open>getUser\<close>. When a call for
  user \<open>a\<close> found the cache empty and stored the record \<open>ua\<close> of \<open>a\<close> at time \<open>t0\<close>, a call at
  any time \<open>t\<close> within the next 18000 units answers \<open>ua\<close> for every id \<open>b\<close>, whatever the
  user service would answer for \<open>b\<close>, and leaves the cache as it is, so that the same holds
  for the call after it.
\<close>

theorem getUser_serves_first_user:
  assumes miss: "cache_get c t0 ''getUser'' = None"
    and first: "UserController_getUser svc t0 a c = (Inr ua, c')"
    and within: "t0 \<le> t" "t < t0 + 18000"
  shows "svc a = Inr ua \<and> UserController_getUser svc' t b c' = (Inr ua, c')"
proof -
  from miss first have a: "svc a = Inr ua" and c': "c' = cache_set c t0 ''getUser'' ua 18000"
    by (auto simp add: UserController_getUser_def split: sum.splits)
  from within have "cache_get c' t ''getUser'' = Some ua"
    by (simp add: c' cache_get_set_same)
  then have "UserController_getUser svc' t b c' = (Inr ua, c')"
    by (simp add: UserController_getUser_def)
  with a show ?thesis by simp
qed

theorem getUser_serves_first_user_witness:
  "cache_get (Map.empty :: UserDto cache) 0 ''getUser'' = None \<and>
   UserController_getUser directory 0 1 Map.empty
     = (Inr alice, cache_set Map.empty 0 ''getUser'' alice 18000) \<and>
   directory 2 = Inr bob \<and> bob \<noteq> alice \<and>
   UserController_getUser directory 17999 2 (cache_set Map.empty 0 ''getUser'' alice 18000)
     = (Inr alice, cache_set Map.empty 0 ''getUser'' alice 18000)"
proof -
  have m: "cache_get (Map.empty :: UserDto cache) 0 ''getUser'' = None"
    by (simp add: cache_get_def)
  have f: "UserController_getUser directory 0 1 Map.empty
      = (Inr alice, cache_set Map.empty 0 ''getUser'' alice 18000)"
    by (simp add: UserController_getUser_def cache_get_def directory_def)
  have d: "directory 2 = Inr bob \<and> bob \<noteq> alice"
    by (simp add: directory_def alice_def bob_def)
  from getUser_serves_first_user [OF m f, of 17999 directory 2] m f d show ?thesis by simp
qed

lemma checkIfFriends_try_not_True: "checkIfFriends_try f1 f2 u fr users \<noteq> Inr True"
  by (simp add: checkIfFriends_try_def Let_def split: sum.splits option.splits)

lemma checkIfFriends_not_True: "checkIfFriends f1 f2 u fr users \<noteq> Inr True"
  using checkIfFriends_try_not_True [of f1 f2 u fr users]
  by (auto simp add: checkIfFriends_def split: sum.splits exn.splits)

lemma UserController_checkIfFriends_not_True:
  "UserController_checkIfFriends f1 f2 u fr users \<noteq> Inr True"
  using checkIfFriends_not_True [of f1 f2 u fr users]
  by (auto simp add: UserController_checkIfFriends_def split: sum.splits)

lemma createItem_needs_True:
  "response \<noteq> Inr True \<Longrightarrow> \<exists>e. createItem response f new_id dto tbl = (Inl e, tbl)"
  by (cases response) (auto simp add: createItem_def)

lemma checkIfFriends_friends:
  assumes "find (\<lambda>x. usr_id x = u) users = Some user"
    and "find (\<lambda>x. usr_id x = fr) users = Some friend"
    and "list_ex (\<lambda>f. usr_id f = fr) (friends user)"
  shows "checkIfFriends None None u fr users
    = Inl (ConflictException ''The specified users are friends.'')"
  using assms by (simp add: checkIfFriends_def checkIfFriends_try_def findOne_def respond_def)

text \<open>
  C9: \<open>checkIfFriends\<close> never returns \<open>true\<close>: its only normal return is \<open>false\<close>. When both
  users exist and the second is in the friends list of the first, it throws the
  \<open>ConflictException\<close>. \<open>createItem\<close> asks the user service through the controller and goes
  on to the insert only on a truthy answer, so it always ends with an error and the item
  table as it was.
\<close>

theorem checkIfFriends_never_true:
  "checkIfFriends f1 f2 u fr users \<noteq> Inr True \<and>
   (\<forall>user friend.
      find (\<lambda>x. usr_id x = u) users = Some user \<and>
      find (\<lambda>x. usr_id x = fr) users = Some friend \<and>
      list_ex (\<lambda>f. usr_id f = fr) (friends user) \<longrightarrow>
      checkIfFriends None None u fr users
        = Inl (ConflictException ''The specified users are friends.'')) \<and>
   (\<exists>e. createItem
           (UserController_checkIfFriends f1 f2 (dto_user_id dto) (dto_friend_id dto) users)
           f new_id dto tbl
         = (Inl e, tbl))"
  using checkIfFriends_not_True checkIfFriends_friends
    createItem_needs_True [OF UserController_checkIfFriends_not_True]
  by blast

theorem checkIfFriends_never_true_witness:
  "find (\<lambda>x. usr_id x = 1) ann_and_ben = Some (User 1 ''Ann'' [User 2 ''Ben'' []]) \<and>
   find (\<lambda>x. usr_id x = 2) ann_and_ben = Some (User 2 ''Ben'' [User 1 ''Ann'' []]) \<and>
   list_ex (\<lambda>f. usr_id f = 2) (friends (User 1 ''Ann'' [User 2 ''Ben'' []])) \<and>
   checkIfFriends None None 1 2 ann_and_ben
     = Inl (ConflictException ''The specified users are friends.'') \<and>
   checkIfFriends None None 2 3 ann_and_ben = Inl (NotFoundException ''Friend not found.'') \<and>
   checkIfFriends None None 1 1 ann_and_ben = Inr False"
proof -
  have a: "find (\<lambda>x. usr_id x = 1) ann_and_ben = Some (User 1 ''Ann'' [User 2 ''Ben'' []])"
    by (simp add: ann_and_ben_def)
  have b: "find (\<lambda>x. usr_id x = 2) ann_and_ben = Some (User 2 ''Ben'' [User 1 ''Ann'' []])"
    by (simp add: ann_and_ben_def)
  have c: "list_ex (\<lambda>f. usr_id f = 2) (friends (User 1 ''Ann'' [User 2 ''Ben'' []]))"
    by simp
  have d: "checkIfFriends None None 2 3 ann_and_ben = Inl (NotFoundException ''Friend not found.'')"
    by (simp add: checkIfFriends_def checkIfFriends_try_def findOne_def respond_def ann_and_ben_def)
  have e: "checkIfFriends None None 1 1 ann_and_ben = Inr False"
    by (simp add: checkIfFriends_def checkIfFriends_try_def findOne_def respond_def ann_and_ben_def)
  from checkIfFriends_never_true [of None None 1 2 ann_and_ben] a b c
  have "checkIfFriends None None 1 2 ann_and_ben
      = Inl (ConflictException ''The specified users are friends.'')"
    by blast
  with a b c d e show ?thesis by simp
qed

text \<open>
  C10: the first controller passes the flag \<open>true\<close> to \<open>getUserItems\<close> for the message
  \<open>getUserItems\<close> and \<open>false\<close> for the forgotten items; the second controller passes \<open>false\<close>
  and \<open>true\<close>. When the database answers and the cache of the first controller holds nothing
  for the user, the first controller's answer to \<open>getUserItems\<close> is the second's answer to
  the forgotten items (the rows whose \<open>user_id\<close> is the user) and the other way round (the
  rows whose \<open>friend_id\<close> is the user). On the table holding the drill the two controllers
  answer \<open>getUserItems\<close> for user 10 differently.
\<close>

theorem item_controllers_swapped:
  "(cache_get c now (''userItems:'' @ number_text uid) = None \<longrightarrow>
      fst (ItemController_getUserItems None now uid c tbl)
        = ItemController2_getUserForgotenItems None uid tbl \<and>
      ItemController2_getUserForgotenItems None uid tbl
        = Inr (filter (\<lambda>r. user_id r = uid) tbl)) \<and>
   (cache_get c now (''userForgottenItems:'' @ number_text uid) = None \<longrightarrow>
      fst (ItemController_getUserForgotenItems None now uid c tbl)
        = ItemController2_getUserItems None uid tbl \<and>
      ItemController2_getUserItems None uid tbl
        = Inr (filter (\<lambda>r. friend_id r = uid) tbl)) \<and>
   fst (ItemController_getUserItems None 0 10 Map.empty [drill])
     \<noteq> ItemController2_getUserItems None 10 [drill]"
  by (simp add: ItemController_getUserItems_def ItemController_getUserForgotenItems_def
      ItemController2_getUserItems_def ItemController2_getUserForgotenItems_def getUserItems_def
      respond_def Let_def cache_get_def drill_def)

theorem item_controllers_swapped_witness:
  "cache_get (Map.empty :: item list cache) 0 (''userItems:'' @ number_text 10) = None \<and>
   cache_get (Map.empty :: item list cache) 0 (''userForgottenItems:'' @ number_text 10) = None \<and>
   fst (ItemController_getUserItems None 0 10 Map.empty [drill, ladder]) = Inr [drill] \<and>
   ItemController2_getUserForgotenItems None 10 [drill, ladder] = Inr [drill] \<and>
   fst (ItemController_getUserForgotenItems None 0 10 Map.empty [drill, ladder]) = Inr [ladder] \<and>
   ItemController2_getUserItems None 10 [drill, ladder] = Inr [ladder]"
proof -
  have m: "cache_get (Map.empty :: item list cache) 0 (''userItems:'' @ number_text 10) = None"
    "cache_get (Map.empty :: item list cache) 0 (''userForgottenItems:'' @ number_text 10) = None"
    by (simp_all add: cache_get_def)
  have r: "filter (\<lambda>r. user_id r = 10) [drill, ladder] = [drill]"
    "filter (\<lambda>r. friend_id r = 10) [drill, ladder] = [ladder]"
    by (simp_all add: drill_def ladder_def)
  from item_controllers_swapped [of Map.empty 0 10 "[drill, ladder]"] m r
  show ?thesis by simp
qed

section \<open>Properties of the coordinator\<close>

lemma atomically_failed: "fst (atomically s out) = Inl f \<Longrightarrow> snd (atomically s out) = s"
  by (cases "fst out") (simp_all add: atomically_def)

lemma validate_InvalidCode_iff:
  "validate cs e v now = Inl InvalidCode \<longleftrightarrow>
     \<not> (\<exists>c \<in> set cs. scope c = e \<and> code_value c = v \<and> usable now c)"
proof (cases "find (\<lambda>c. scope c = e \<and> code_value c = v \<and> usable now c) cs")
  case None
  have "validate cs e v now = Inl InvalidCode"
    by (simp add: validate_def None)
  moreover from None have "\<not> (\<exists>c \<in> set cs. scope c = e \<and> code_value c = v \<and> usable now c)"
    unfolding find_None_iff by blast
  ultimately show ?thesis by blast
next
  case (Some c)
  then have "c \<in> set cs \<and> scope c = e \<and> code_value c = v \<and> usable now c"
    by (auto simp add: find_Some_iff)
  moreover have "validate cs e v now \<noteq> Inl InvalidCode"
    by (simp add: validate_def Some)
  ultimately show ?thesis by blast
qed

lemma validate_failure: "validate cs e v now = Inl f \<Longrightarrow> f = InvalidCode"
  by (auto simp add: validate_def split: option.splits)

lemma validate_role:
  "validate cs e v now = Inr r \<Longrightarrow>
     \<exists>c \<in> set cs. scope c = e \<and> code_value c = v \<and> usable now c \<and> issued_for c = r"
proof -
  assume a: "validate cs e v now = Inr r"
  then obtain c where f: "find (\<lambda>c. scope c = e \<and> code_value c = v \<and> usable now c) cs = Some c"
    and r: "issued_for c = r"
    by (auto simp add: validate_def split: option.splits)
  from f have "c \<in> set cs \<and> scope c = e \<and> code_value c = v \<and> usable now c"
    by (auto simp add: find_Some_iff)
  with r show ?thesis by blast
qed

lemma consumeBoxOpen_InvalidCode:
  "exchanges s e = Some x \<Longrightarrow> validate (codes s) e v now = Inl InvalidCode \<Longrightarrow>
     consumeBoxOpen ev now e v s = (Inl InvalidCode, s)"
  by (simp add: consumeBoxOpen_def consumeBoxOpen_steps_def atomically_def)

text \<open>
  C6 (on the coordinator modelled from the spec): let \<open>c\<close> be a code of a known exchange,
  the only one with its value for that exchange. At the instant \<open>expiry c\<close> the code is not
  usable, validating it fails with \<open>InvalidCode\<close>, and so does \<open>consumeBoxOpen\<close>, which
  changes nothing. At any earlier instant the unconsumed code is validated for its role:
  the interval of validity ends just before the expiry instant.
\<close>

theorem expired_at_expiry_instant:
  assumes only: "\<forall>c' \<in> set (codes s). scope c' = scope c \<and> code_value c' = code_value c \<longrightarrow> c' = c"
    and known: "exchanges s (scope c) = Some x"
  shows "\<not> usable (expiry c) c \<and>
         validate (codes s) (scope c) (code_value c) (expiry c) = Inl InvalidCode \<and>
         perform ev cap (expiry c) (ConsumeBoxOpen (scope c) (code_value c)) s = (Inl InvalidCode, s) \<and>
         (c \<in> set (codes s) \<and> \<not> consumed c \<and> now < expiry c \<longrightarrow>
            validate (codes s) (scope c) (code_value c) now = Inr (issued_for c))"
proof -
  have u: "\<not> usable (expiry c) c" by (simp add: usable_def)
  with only have v: "validate (codes s) (scope c) (code_value c) (expiry c) = Inl InvalidCode"
    unfolding validate_InvalidCode_iff by blast
  have p: "perform ev cap (expiry c) (ConsumeBoxOpen (scope c) (code_value c)) s = (Inl InvalidCode, s)"
    using consumeBoxOpen_InvalidCode [OF known v] by simp
  have "validate (codes s) (scope c) (code_value c) now = Inr (issued_for c)"
    if "c \<in> set (codes s)" "\<not> consumed c" "now < expiry c"
  proof (cases "validate (codes s) (scope c) (code_value c) now")
    case (Inl f)
    then have "validate (codes s) (scope c) (code_value c) now = Inl InvalidCode"
      using validate_failure by blast
    with that show ?thesis
      unfolding validate_InvalidCode_iff by (auto simp add: usable_def)
  next
    case (Inr r)
    from validate_role [OF Inr] only show ?thesis using Inr by auto
  qed
  with u v p show ?thesis by blast
qed

lemma deposit_pending_codes: "codes deposit_pending = [creator_code]"
  by (simp add: deposit_pending_def handover_def proposeExchange_def proposeExchange_steps_def
      assignBox_def assignBox_steps_def commitItems_steps_def reserveBox_steps_def
      requestBoxOpen_def atomically_def set_status_def reserve_def getItemDimensions_def
      List.map_filter_def current_status_def lapsed_def issue_def initial_def shelf_def
      lockers_def up_def item_count_def creator_code_def Let_def)

lemma deposit_pending_exchange:
  "exchanges deposit_pending 0 =
     Some \<lparr>initiator = 10, counterpart = 20, status = BOX_ASSIGNED, box = Some 7, created = 10,
           status_changed = 11, exchange_items = [1, 2], deadline = Some 111\<rparr>"
  by (simp add: deposit_pending_def handover_def proposeExchange_def proposeExchange_steps_def
      assignBox_def assignBox_steps_def commitItems_steps_def reserveBox_steps_def
      requestBoxOpen_def atomically_def set_status_def reserve_def getItemDimensions_def
      List.map_filter_def current_status_def lapsed_def issue_def initial_def shelf_def
      lockers_def up_def item_count_def Let_def)

theorem expired_at_expiry_instant_witness:
  "codes deposit_pending = [creator_code] \<and>
   exchanges deposit_pending 0 \<noteq> None \<and>
   perform up item_count 17 (ConsumeBoxOpen 0 4242) deposit_pending = (Inl InvalidCode, deposit_pending) \<and>
   validate (codes deposit_pending) 0 4242 16 = Inr creator"
proof -
  have only: "\<forall>c' \<in> set (codes deposit_pending).
      scope c' = scope creator_code \<and> code_value c' = code_value creator_code \<longrightarrow> c' = creator_code"
    by (simp add: deposit_pending_codes)
  have known: "exchanges deposit_pending (scope creator_code) =
     Some \<lparr>initiator = 10, counterpart = 20, status = BOX_ASSIGNED, box = Some 7, created = 10,
           status_changed = 11, exchange_items = [1, 2], deadline = Some 111\<rparr>"
    by (simp add: deposit_pending_exchange creator_code_def)
  have c: "scope creator_code = 0 \<and> code_value creator_code = 4242 \<and> expiry creator_code = 17 \<and>
      issued_for creator_code = creator \<and> \<not> consumed creator_code"
    by (simp add: creator_code_def)
  from expired_at_expiry_instant [OF only known, of up item_count 16] only c
  show ?thesis by (simp add: deposit_pending_codes deposit_pending_exchange)
qed

subsection \<open>At most one open code for an exchange\<close>

lemma open_in_consume:
  "open_in (consume cs e v) e' =
     filter (\<lambda>c. \<not> (scope c = e \<and> code_value c = v)) (open_in cs e')"
  by (induction cs) (auto simp add: open_in_def consume_def)

lemma length_filter_le1: "length xs \<le> 1 \<Longrightarrow> length (filter P xs) \<le> 1"
  using length_filter_le [of P xs] by linarith

lemma at_most_one_same:
  "length xs \<le> 1 \<Longrightarrow> a \<in> set xs \<Longrightarrow> b \<in> set xs \<Longrightarrow> a = b"
  by (cases xs) auto

lemma open_in_issue:
  "open_in (issue cs e r now ttl v) e' =
     filter (\<lambda>c. \<not> (scope c = e \<and> issued_for c = r)) (open_in cs e') @
     (if e' = e
      then [\<lparr>scope = e, code_value = v, issued_for = r, issued = now, consumed = False,
             expiry = now + ttl\<rparr>]
      else [])"
proof (induction cs)
  case Nil
  show ?case by (simp add: open_in_def issue_def)
next
  case (Cons c cs)
  have "issue (c # cs) e r now ttl v =
      (if scope c = e \<and> issued_for c = r \<and> \<not> consumed c then c\<lparr>consumed := True\<rparr> else c)
      # issue cs e r now ttl v"
    by (simp add: issue_def)
  then show ?case using Cons.IH by (simp add: open_in_def)
qed

lemma open_in_issue_same:
  "open_in (issue cs e r now ttl v) e =
     filter (\<lambda>c. \<not> (scope c = e \<and> issued_for c = r)) (open_in cs e) @
     [\<lparr>scope = e, code_value = v, issued_for = r, issued = now, consumed = False,
       expiry = now + ttl\<rparr>]"
  by (simp add: open_in_issue)

lemma open_in_issue_other:
  "e' \<noteq> e \<Longrightarrow> open_in (issue cs e r now ttl v) e' =
     filter (\<lambda>c. \<not> (scope c = e \<and> issued_for c = r)) (open_in cs e')"
  by (simp add: open_in_issue)


lemma codes_ok_length: "codes_ok ex cs n \<Longrightarrow> length (open_in cs e) \<le> 1"
  by (simp add: codes_ok_def)

lemma codes_ok_permits:
  "codes_ok ex cs n \<Longrightarrow> c \<in> set (open_in cs e) \<Longrightarrow>
     \<exists>x. ex e = Some x \<and> permits (status x) (issued_for c)"
  unfolding codes_ok_def by blast

lemma codes_ok_fresh: "codes_ok ex cs n \<Longrightarrow> n \<le> e \<Longrightarrow> ex e = None"
  by (simp add: codes_ok_def)

lemma codes_okI:
  assumes "\<And>e. length (open_in cs e) \<le> 1"
    and "\<And>e c. c \<in> set (open_in cs e) \<Longrightarrow> \<exists>x. ex e = Some x \<and> permits (status x) (issued_for c)"
    and "\<And>e. n \<le> e \<Longrightarrow> ex e = None"
  shows "codes_ok ex cs n"
  unfolding codes_ok_def using assms by blast

lemma codes_ok_status:
  assumes ok: "codes_ok ex cs n" and x: "ex e = Some x"
    and loosen: "\<And>r. permits (status x) r \<Longrightarrow> permits (status x') r"
  shows "codes_ok (ex(e \<mapsto> x')) cs n"
proof (rule codes_okI)
  fix e' show "length (open_in cs e') \<le> 1" by (rule codes_ok_length [OF ok])
next
  fix e' c assume c: "c \<in> set (open_in cs e')"
  from codes_ok_permits [OF ok c] obtain y where y: "ex e' = Some y" "permits (status y) (issued_for c)"
    by blast
  show "\<exists>x. (ex(e \<mapsto> x')) e' = Some x \<and> permits (status x) (issued_for c)"
  proof (cases "e' = e")
    case True
    with x y have "y = x" by simp
    with y loosen True show ?thesis by simp
  next
    case False
    with y show ?thesis by simp
  qed
next
  fix e' assume n: "n \<le> e'"
  from codes_ok_fresh [OF ok n] x have "e' \<noteq> e" by auto
  with codes_ok_fresh [OF ok n] show "(ex(e \<mapsto> x')) e' = None" by simp
qed

lemma codes_ok_propose:
  assumes ok: "codes_ok ex cs n"
  shows "codes_ok (ex(n \<mapsto> x)) cs (Suc n)"
proof (rule codes_okI)
  fix e' show "length (open_in cs e') \<le> 1" by (rule codes_ok_length [OF ok])
next
  fix e' c assume c: "c \<in> set (open_in cs e')"
  from codes_ok_permits [OF ok c] obtain y where y: "ex e' = Some y" "permits (status y) (issued_for c)"
    by blast
  from codes_ok_fresh [OF ok, of n] y have "e' \<noteq> n" by auto
  with y show "\<exists>y. (ex(n \<mapsto> x)) e' = Some y \<and> permits (status y) (issued_for c)" by simp
next
  fix e' assume "Suc n \<le> e'"
  then have "n \<le> e'" "e' \<noteq> n" by simp_all
  with codes_ok_fresh [OF ok] show "(ex(n \<mapsto> x)) e' = None" by simp
qed

lemma codes_ok_issue:
  assumes ok: "codes_ok ex cs n" and x: "ex e = Some x"
    and role: "permits (status x) r" "\<And>r'. permits (status x) r' \<Longrightarrow> r' = r"
  shows "codes_ok ex (issue cs e r now ttl v) n"
proof (rule codes_okI)
  have all_r: "scope c = e \<and> issued_for c = r" if "c \<in> set (open_in cs e)" for c
  proof -
    from codes_ok_permits [OF ok that] x role(2) have "issued_for c = r" by auto
    moreover from that have "scope c = e" by (simp add: open_in_def)
    ultimately show ?thesis by simp
  qed
  then have none: "filter (\<lambda>c. \<not> (scope c = e \<and> issued_for c = r)) (open_in cs e) = []"
    by (simp add: filter_empty_conv)
  {
    fix e'
    show "length (open_in (issue cs e r now ttl v) e') \<le> 1"
    proof (cases "e' = e")
      case True
      have "length (open_in (issue cs e r now ttl v) e) \<le> 1"
        unfolding open_in_issue_same none by simp
      with True show ?thesis by simp
    next
      case False
      have "length (filter (\<lambda>c. \<not> (scope c = e \<and> issued_for c = r)) (open_in cs e')) \<le> 1"
        by (rule length_filter_le1 [OF codes_ok_length [OF ok]])
      then show ?thesis
        unfolding open_in_issue_other [OF False] .
    qed
  next
    fix e' c assume c: "c \<in> set (open_in (issue cs e r now ttl v) e')"
    show "\<exists>x. ex e' = Some x \<and> permits (status x) (issued_for c)"
    proof (cases "e' = e")
      case True
      from c True have "c \<in> set (open_in (issue cs e r now ttl v) e)" by simp
      then have "issued_for c = r" unfolding open_in_issue_same none by auto
      with x role(1) True show ?thesis by simp
    next
      case False
      with c have "c \<in> set (open_in cs e')" by (simp add: open_in_issue_other)
      then show ?thesis by (rule codes_ok_permits [OF ok])
    qed
  next
    fix e' assume "n \<le> e'"
    then show "ex e' = None" by (rule codes_ok_fresh [OF ok])
  }
qed

lemma codes_ok_consume:
  assumes ok: "codes_ok ex cs n" and x: "ex e = Some x"
    and valid: "validate cs e v now = Inr r"
  shows "codes_ok (ex(e \<mapsto> x')) (consume cs e v) n"
proof (rule codes_okI)
  from validate_role [OF valid] obtain c where c: "c \<in> set (open_in cs e)" "code_value c = v"
    by (auto simp add: open_in_def usable_def)
  have len: "length (open_in cs e) \<le> 1" by (rule codes_ok_length [OF ok])
  have "scope c' = e \<and> code_value c' = v" if "c' \<in> set (open_in cs e)" for c'
  proof -
    from at_most_one_same [OF len c(1) that] c(2) have "code_value c' = v" by simp
    moreover from that have "scope c' = e" by (simp add: open_in_def)
    ultimately show ?thesis by simp
  qed
  then have none: "open_in (consume cs e v) e = []"
    by (simp add: open_in_consume filter_empty_conv)
  {
    fix e'
    have "length (filter (\<lambda>c. \<not> (scope c = e \<and> code_value c = v)) (open_in cs e')) \<le> 1"
      by (rule length_filter_le1 [OF codes_ok_length [OF ok]])
    then show "length (open_in (consume cs e v) e') \<le> 1"
      by (simp only: open_in_consume)
  next
    fix e' c' assume c': "c' \<in> set (open_in (consume cs e v) e')"
    with none have ne: "e' \<noteq> e" by auto
    from c' have "c' \<in> set (open_in cs e')" by (simp add: open_in_consume)
    from codes_ok_permits [OF ok this] ne
    show "\<exists>y. (ex(e \<mapsto> x')) e' = Some y \<and> permits (status y) (issued_for c')" by simp
  next
    fix e' assume n: "n \<le> e'"
    from codes_ok_fresh [OF ok n] x have "e' \<noteq> e" by auto
    with codes_ok_fresh [OF ok n] show "(ex(e \<mapsto> x')) e' = None" by simp
  }
qed


lemma code_inv_atomically:
  assumes "code_inv s" and "\<And>r. fst out = Inr r \<Longrightarrow> code_inv (snd out)"
  shows "code_inv (snd (atomically s out))"
  using assms by (cases "fst out") (simp_all add: atomically_def)

lemma retire_steps_effect:
  "exchanges (snd (retire_steps ev now e x st s))
     = (exchanges s)(e \<mapsto> x\<lparr>status := st, status_changed := now\<rparr>) \<and>
   codes (snd (retire_steps ev now e x st s)) = codes s \<and>
   next_exchange (snd (retire_steps ev now e x st s)) = next_exchange s"
  by (simp add: retire_steps_def set_status_def Let_def split: option.splits)

lemma current_status_stored:
  "current_status x now = BOX_ASSIGNED \<Longrightarrow> status x = BOX_ASSIGNED"
  "current_status x now = AWAITING_PICKUP \<Longrightarrow> status x = AWAITING_PICKUP"
  by (simp_all add: current_status_def split: if_splits)

lemma code_inv_retire:
  assumes inv: "codes_ok (exchanges s) (codes s) (next_exchange s)" and x: "exchanges s e = Some x"
    and st: "st = COMPLETED \<or> st = CANCELLED \<or> st = EXPIRED"
  shows "code_inv (snd (retire_steps ev now e x st s))"
proof -
  have "codes_ok ((exchanges s)(e \<mapsto> x\<lparr>status := st, status_changed := now\<rparr>)) (codes s) (next_exchange s)"
    using st by (intro codes_ok_status [OF inv x]) auto
  then show ?thesis by (simp add: code_inv_def retire_steps_effect)
qed

lemma code_inv_proposeExchange:
  assumes inv: "code_inv s"
  shows "code_inv (snd (proposeExchange ev now ini cp ids s))"
  unfolding proposeExchange_def
proof (rule code_inv_atomically [OF inv])
  fix r assume "fst (proposeExchange_steps ev now ini cp ids s) = Inr r"
  then show "code_inv (snd (proposeExchange_steps ev now ini cp ids s))"
    using inv codes_ok_propose [of "exchanges s" "codes s" "next_exchange s"]
    by (auto simp add: proposeExchange_steps_def Let_def code_inv_def split: if_splits sum.splits)
qed

lemma code_inv_commitItems_steps:
  assumes inv: "code_inv s"
  shows "code_inv (snd (commitItems_steps ev now e s))"
proof (cases "exchanges s e")
  case None
  with inv show ?thesis by (simp add: commitItems_steps_def)
next
  case (Some x)
  from inv have inv': "codes_ok (exchanges s) (codes s) (next_exchange s)"
    by (simp add: code_inv_def)
  have "codes_ok ((exchanges s)(e \<mapsto> x\<lparr>status := ITEMS_COMMITTED, status_changed := now\<rparr>))
      (codes s) (next_exchange s)" if "status x = PROPOSED"
    using that by (intro codes_ok_status [OF inv' Some]) auto
  with inv Some show ?thesis
    by (auto simp add: commitItems_steps_def set_status_def code_inv_def split: option.splits)
qed

lemma code_inv_reserveBox_steps:
  assumes inv: "code_inv s"
  shows "code_inv (snd (reserveBox_steps ev cap now window e s))"
proof (cases "exchanges s e")
  case None
  with inv show ?thesis by (simp add: reserveBox_steps_def)
next
  case (Some x)
  from inv have inv': "codes_ok (exchanges s) (codes s) (next_exchange s)"
    by (simp add: code_inv_def)
  have "codes_ok ((exchanges s)(e \<mapsto> x\<lparr>status := BOX_ASSIGNED, status_changed := now,
      box := Some b, deadline := Some (now + window)\<rparr>)) (codes s) (next_exchange s)"
    if "status x = ITEMS_COMMITTED" for b
    using that by (intro codes_ok_status [OF inv' Some]) auto
  with inv Some show ?thesis
    by (auto simp add: reserveBox_steps_def code_inv_def split: sum.splits prod.splits)
qed

lemma code_inv_assignBox:
  assumes inv: "code_inv s"
  shows "code_inv (snd (assignBox ev cap now window e s))"
  unfolding assignBox_def
proof (rule code_inv_atomically [OF inv])
  show "code_inv (snd (assignBox_steps ev cap now window e s))"
    using inv code_inv_reserveBox_steps [OF inv, of ev cap now window e]
      code_inv_reserveBox_steps [OF code_inv_commitItems_steps [OF inv, of ev now e], of ev cap now window e]
      code_inv_commitItems_steps [OF inv, of ev now e]
    by (auto simp add: assignBox_steps_def split: option.splits prod.splits sum.splits)
qed

lemma code_inv_commitItems:
  "code_inv s \<Longrightarrow> code_inv (snd (commitItems ev now e s))"
  unfolding commitItems_def
  by (rule code_inv_atomically) (simp_all add: code_inv_commitItems_steps)

lemma code_inv_requestBoxOpen:
  assumes inv: "code_inv s"
  shows "code_inv (snd (requestBoxOpen ev now e r ttl v s))"
proof (cases "exchanges s e")
  case None
  with inv show ?thesis by (simp add: requestBoxOpen_def atomically_def)
next
  case (Some x)
  from inv have inv': "codes_ok (exchanges s) (codes s) (next_exchange s)"
    by (simp add: code_inv_def)
  have "codes_ok (exchanges s) (issue (codes s) e r now ttl v) (next_exchange s)"
    if "(current_status x now = BOX_ASSIGNED \<and> r = creator) \<or>
        (current_status x now = AWAITING_PICKUP \<and> r = pickup)"
    using that current_status_stored [of x now]
    by (intro codes_ok_issue [OF inv' Some]) auto
  with inv Some show ?thesis
    by (simp add: requestBoxOpen_def atomically_def code_inv_def Let_def)
qed

lemma code_inv_consumeBoxOpen:
  assumes inv: "code_inv s"
  shows "code_inv (snd (consumeBoxOpen ev now e v s))"
  unfolding consumeBoxOpen_def
proof (rule code_inv_atomically [OF inv])
  fix rp assume ok: "fst (consumeBoxOpen_steps ev now e v s) = Inr rp"
  then obtain x r where x: "exchanges s e = Some x" and r: "validate (codes s) e v now = Inr r"
    by (auto simp add: consumeBoxOpen_steps_def split: option.splits sum.splits)
  let ?s1 = "s\<lparr>codes := consume (codes s) e v\<rparr>"
  from inv have inv': "codes_ok (exchanges s) (codes s) (next_exchange s)"
    by (simp add: code_inv_def)
  have c: "codes_ok ((exchanges s)(e \<mapsto> x')) (consume (codes s) e v) (next_exchange s)" for x'
    by (rule codes_ok_consume [OF inv' x r])
  have "code_inv (snd (retire_steps ev now e x COMPLETED ?s1))"
    using c by (simp add: code_inv_def retire_steps_effect)
  with ok x r c show "code_inv (snd (consumeBoxOpen_steps ev now e v s))"
    by (auto simp add: consumeBoxOpen_steps_def Let_def set_status_def code_inv_def split: if_splits)
qed

lemma code_inv_cancelExchange:
  assumes inv: "code_inv s"
  shows "code_inv (snd (cancelExchange ev now e s))"
proof (cases "exchanges s e")
  case None
  with inv show ?thesis by (simp add: cancelExchange_def atomically_def)
next
  case (Some x)
  from inv have inv': "codes_ok (exchanges s) (codes s) (next_exchange s)"
    by (simp add: code_inv_def)
  have "code_inv (snd (retire_steps ev now e x CANCELLED s))"
    by (rule code_inv_retire [OF inv' Some]) simp
  with inv Some show ?thesis
    unfolding cancelExchange_def by (intro code_inv_atomically) (auto simp add: Let_def)
qed

lemma code_inv_expireExchange:
  assumes inv: "code_inv s"
  shows "code_inv (snd (expireExchange ev now e s))"
proof (cases "exchanges s e")
  case None
  with inv show ?thesis by (simp add: expireExchange_def atomically_def)
next
  case (Some x)
  from inv have inv': "codes_ok (exchanges s) (codes s) (next_exchange s)"
    by (simp add: code_inv_def)
  have "code_inv (snd (retire_steps ev now e x EXPIRED s))"
    by (rule code_inv_retire [OF inv' Some]) simp
  with inv Some show ?thesis
    unfolding expireExchange_def by (intro code_inv_atomically) auto
qed

lemma code_inv_perform: "code_inv s \<Longrightarrow> code_inv (snd (perform ev cap now rq s))"
  by (cases rq)
    (simp_all add: code_inv_proposeExchange code_inv_commitItems code_inv_assignBox
      code_inv_requestBoxOpen code_inv_consumeBoxOpen code_inv_cancelExchange
      code_inv_expireExchange)

lemma code_inv_run: "code_inv s \<Longrightarrow> code_inv (run cap calls s)"
  by (induction calls arbitrary: s) (auto simp add: code_inv_perform)

lemma code_inv_initial: "code_inv (initial l r)"
  by (simp add: code_inv_def codes_ok_def initial_def open_in_def)

subsection \<open>What a call leaves of an exchange and of the codes\<close>

lemma atomically_keeps:
  assumes "P s" and "\<And>r. fst out = Inr r \<Longrightarrow> P (snd out)"
  shows "P (snd (atomically s out))"
  using assms by (cases "fst out") (simp_all add: atomically_def)







lemma kept_requestBoxOpen:
  "exchanges (snd (requestBoxOpen ev now e' r ttl v s)) = exchanges s"
  by (simp add: requestBoxOpen_def atomically_def Let_def split: option.splits)




lemma code_inv_known: "code_inv s \<Longrightarrow> exchanges s e = Some x \<Longrightarrow> e < next_exchange s"
  unfolding code_inv_def using codes_ok_fresh [of "exchanges s" "codes s" "next_exchange s" e]
  by (cases "e < next_exchange s") auto



lemma validate_consumed: "validate (consume cs e v) e v now = Inl InvalidCode"
proof -
  have "\<not> usable now c" if "c \<in> set (consume cs e v)" "scope c = e" "code_value c = v" for c
  proof -
    from that(1) obtain c0 where c0: "c0 \<in> set cs"
      and c: "c = (if scope c0 = e \<and> code_value c0 = v then c0\<lparr>consumed := True\<rparr> else c0)"
      unfolding consume_def by auto
    show ?thesis
    proof (cases "scope c0 = e \<and> code_value c0 = v")
      case True
      with c show ?thesis by (simp add: usable_def)
    next
      case False
      with c that(2,3) show ?thesis by simp
    qed
  qed
  then show ?thesis unfolding validate_InvalidCode_iff by blast
qed

lemma usable_open:
  "filter (\<lambda>c. scope c = e \<and> usable now c) cs = filter (\<lambda>c. now < expiry c) (open_in cs e)"
  by (simp add: open_in_def usable_def conj_assoc)


lemma atomically_success:
  "fst (atomically s out) = Inr rp \<Longrightarrow> atomically s out = out \<and> fst out = Inr rp"
  by (cases "fst out") (simp_all add: atomically_def)

lemma consumeBoxOpen_success:
  assumes ok: "fst (consumeBoxOpen ev now e v s) = Inr rp"
  shows "codes (snd (consumeBoxOpen ev now e v s)) = consume (codes s) e v \<and>
         exchanges (snd (consumeBoxOpen ev now e v s)) e \<noteq> None"
proof -
  from atomically_success [OF ok [unfolded consumeBoxOpen_def]]
  have same: "consumeBoxOpen ev now e v s = consumeBoxOpen_steps ev now e v s"
    and steps: "fst (consumeBoxOpen_steps ev now e v s) = Inr rp"
    by (simp_all add: consumeBoxOpen_def)
  obtain x where x: "exchanges s e = Some x"
    using steps by (cases "exchanges s e") (simp_all add: consumeBoxOpen_steps_def)
  obtain r where r: "validate (codes s) e v now = Inr r"
    using steps x by (cases "validate (codes s) e v now") (simp_all add: consumeBoxOpen_steps_def)
  let ?s1 = "s\<lparr>codes := consume (codes s) e v\<rparr>"
  have "consumeBoxOpen_steps ev now e v s
      = (Inr (Transitioned AWAITING_PICKUP), set_status ?s1 e x AWAITING_PICKUP now) \<or>
    consumeBoxOpen_steps ev now e v s = retire_steps ev now e x COMPLETED ?s1"
    using steps x r by (simp add: consumeBoxOpen_steps_def Let_def split: if_splits)
  then show ?thesis unfolding same
  proof
    assume "consumeBoxOpen_steps ev now e v s
      = (Inr (Transitioned AWAITING_PICKUP), set_status ?s1 e x AWAITING_PICKUP now)"
    then show "codes (snd (consumeBoxOpen_steps ev now e v s)) = consume (codes s) e v \<and>
         exchanges (snd (consumeBoxOpen_steps ev now e v s)) e \<noteq> None"
      by (simp add: set_status_def)
  next
    assume "consumeBoxOpen_steps ev now e v s = retire_steps ev now e x COMPLETED ?s1"
    then show "codes (snd (consumeBoxOpen_steps ev now e v s)) = consume (codes s) e v \<and>
         exchanges (snd (consumeBoxOpen_steps ev now e v s)) e \<noteq> None"
      by (simp add: retire_steps_effect)
  qed
qed

lemma spent_consume_self: "spent (consume cs e v) e v"
  by (induction cs) (auto simp add: spent_def consume_def)

lemma spent_consume: "spent cs e v \<Longrightarrow> spent (consume cs e' v') e v"
  by (induction cs) (auto simp add: spent_def consume_def)

lemma spent_issue:
  "spent cs e v \<Longrightarrow> \<not> (e' = e \<and> v' = v) \<Longrightarrow> spent (issue cs e' r now ttl v') e v"
  by (induction cs) (auto simp add: spent_def issue_def)

lemma spent_validate: "spent cs e v \<Longrightarrow> validate cs e v now = Inl InvalidCode"
  unfolding validate_InvalidCode_iff by (auto simp add: spent_def list_all_iff usable_def)

lemma codes_commitItems_steps: "codes (snd (commitItems_steps ev now e s)) = codes s"
  by (simp add: commitItems_steps_def set_status_def split: option.splits)

lemma codes_reserveBox_steps: "codes (snd (reserveBox_steps ev cap now window e s)) = codes s"
  by (simp add: reserveBox_steps_def split: option.splits sum.splits prod.splits)

lemma codes_assignBox_steps: "codes (snd (assignBox_steps ev cap now window e s)) = codes s"
proof (cases "commitItems_steps ev now e s")
  case (Pair out s1)
  then have "s1 = snd (commitItems_steps ev now e s)" by simp
  then have s1: "codes s1 = codes s" by (simp add: codes_commitItems_steps)
  have "codes (snd (reserveBox_steps ev cap now window e s1)) = codes s"
    by (simp add: codes_reserveBox_steps s1)
  with Pair s1 show ?thesis
    by (simp add: assignBox_steps_def codes_reserveBox_steps split: option.splits sum.splits)
qed

lemma spent_perform:
  assumes sp: "spent (codes s) e v" and other: "\<And>r ttl. rq \<noteq> RequestBoxOpen e r ttl v"
  shows "spent (codes (snd (perform ev cap now rq s))) e v"
proof (cases rq)
  case (ProposeExchange ini cp ids)
  have "spent (codes (snd (proposeExchange ev now ini cp ids s))) e v"
    unfolding proposeExchange_def
    by (rule atomically_keeps [where P = "\<lambda>s'. spent (codes s') e v", OF sp])
      (simp add: proposeExchange_steps_def Let_def sp split: sum.splits)
  with ProposeExchange show ?thesis by simp
next
  case (CommitItems e')
  have "spent (codes (snd (commitItems ev now e' s))) e v"
    unfolding commitItems_def
    by (rule atomically_keeps [where P = "\<lambda>s'. spent (codes s') e v", OF sp])
      (simp add: codes_commitItems_steps sp)
  with CommitItems show ?thesis by simp
next
  case (AssignBox e' window)
  have "spent (codes (snd (assignBox ev cap now window e' s))) e v"
    unfolding assignBox_def
    by (rule atomically_keeps [where P = "\<lambda>s'. spent (codes s') e v", OF sp])
      (simp add: codes_assignBox_steps sp)
  with AssignBox show ?thesis by simp
next
  case (RequestBoxOpen e' r ttl v')
  with other have ne: "\<not> (e' = e \<and> v' = v)" by auto
  have "spent (codes (snd (requestBoxOpen ev now e' r ttl v' s))) e v"
    unfolding requestBoxOpen_def
    by (rule atomically_keeps [where P = "\<lambda>s'. spent (codes s') e v", OF sp])
      (simp add: Let_def sp spent_issue [OF sp ne] split: option.splits)
  with RequestBoxOpen show ?thesis by simp
next
  case (ConsumeBoxOpen e' v')
  have "spent (codes (snd (consumeBoxOpen ev now e' v' s))) e v"
  proof (cases "fst (consumeBoxOpen ev now e' v' s)")
    case (Inl f)
    then have "snd (consumeBoxOpen ev now e' v' s) = s"
      unfolding consumeBoxOpen_def by (rule atomically_failed)
    with sp show ?thesis by simp
  next
    case (Inr rp)
    from consumeBoxOpen_success [OF Inr] spent_consume [OF sp] show ?thesis by simp
  qed
  with ConsumeBoxOpen show ?thesis by simp
next
  case (CancelExchange e')
  have "spent (codes (snd (cancelExchange ev now e' s))) e v"
    unfolding cancelExchange_def
    by (rule atomically_keeps [where P = "\<lambda>s'. spent (codes s') e v", OF sp])
      (simp add: Let_def retire_steps_effect sp split: option.splits)
  with CancelExchange show ?thesis by simp
next
  case (ExpireExchange e')
  have "spent (codes (snd (expireExchange ev now e' s))) e v"
    unfolding expireExchange_def
    by (rule atomically_keeps [where P = "\<lambda>s'. spent (codes s') e v", OF sp])
      (simp add: retire_steps_effect sp split: option.splits)
  with ExpireExchange show ?thesis by simp
next
  case (GetStatus e')
  with sp show ?thesis by simp
qed


lemma consumeBoxOpen_steps_success:
  assumes steps: "fst (consumeBoxOpen_steps ev now e v s) = Inr rp"
  shows "\<exists>x. exchanges s e = Some x \<and>
    (consumeBoxOpen_steps ev now e v s
       = (Inr (Transitioned AWAITING_PICKUP),
          set_status (s\<lparr>codes := consume (codes s) e v\<rparr>) e x AWAITING_PICKUP now) \<or>
     consumeBoxOpen_steps ev now e v s
       = retire_steps ev now e x COMPLETED (s\<lparr>codes := consume (codes s) e v\<rparr>))"
proof -
  obtain x where x: "exchanges s e = Some x"
    using steps by (cases "exchanges s e") (simp_all add: consumeBoxOpen_steps_def)
  obtain r where r: "validate (codes s) e v now = Inr r"
    using steps x by (cases "validate (codes s) e v now") (simp_all add: consumeBoxOpen_steps_def)
  from steps x r show ?thesis
    by (simp add: consumeBoxOpen_steps_def Let_def split: if_splits)
qed

lemma known_commitItems_steps:
  "exchanges s e \<noteq> None \<Longrightarrow> exchanges (snd (commitItems_steps ev now e' s)) e \<noteq> None"
  by (simp add: commitItems_steps_def set_status_def split: option.splits)

lemma known_reserveBox_steps:
  "exchanges s e \<noteq> None \<Longrightarrow> exchanges (snd (reserveBox_steps ev cap now window e' s)) e \<noteq> None"
  by (simp add: reserveBox_steps_def split: option.splits sum.splits prod.splits)

lemma known_assignBox_steps:
  assumes k: "exchanges s e \<noteq> None"
  shows "exchanges (snd (assignBox_steps ev cap now window e' s)) e \<noteq> None"
proof (cases "commitItems_steps ev now e' s")
  case (Pair out s1)
  then have "s1 = snd (commitItems_steps ev now e' s)" by simp
  with k have s1: "exchanges s1 e \<noteq> None" by (simp add: known_commitItems_steps)
  from known_reserveBox_steps [OF s1] known_reserveBox_steps [OF k] Pair s1 k show ?thesis
    by (simp add: assignBox_steps_def split: option.splits sum.splits)
qed

lemma known_perform:
  assumes k: "exchanges s e \<noteq> None"
  shows "exchanges (snd (perform ev cap now rq s)) e \<noteq> None"
proof -
  from k obtain y where y: "exchanges s e = Some y" by auto
  show ?thesis
  proof (cases rq)
  case (ProposeExchange ini cp ids)
  have "exchanges (snd (proposeExchange ev now ini cp ids s)) e \<noteq> None"
    unfolding proposeExchange_def
    using k
    by (intro atomically_keeps [where P = "\<lambda>s'. exchanges s' e \<noteq> None"])
      (auto simp add: proposeExchange_steps_def Let_def split: sum.splits)
  with ProposeExchange show ?thesis by simp
next
  case (CommitItems e')
  have "exchanges (snd (commitItems ev now e' s)) e \<noteq> None"
    unfolding commitItems_def
    by (rule atomically_keeps [where P = "\<lambda>s'. exchanges s' e \<noteq> None", OF k])
      (rule known_commitItems_steps [OF k])
  with CommitItems show ?thesis by simp
next
  case (AssignBox e' window)
  have "exchanges (snd (assignBox ev cap now window e' s)) e \<noteq> None"
    unfolding assignBox_def
    by (rule atomically_keeps [where P = "\<lambda>s'. exchanges s' e \<noteq> None", OF k])
      (rule known_assignBox_steps [OF k])
  with AssignBox show ?thesis by simp
next
  case (RequestBoxOpen e' r ttl v')
  with k show ?thesis by (simp add: kept_requestBoxOpen)
next
  case (ConsumeBoxOpen e' v')
  have "exchanges (snd (consumeBoxOpen ev now e' v' s)) e \<noteq> None"
    unfolding consumeBoxOpen_def
  proof (rule atomically_keeps [where P = "\<lambda>s'. exchanges s' e \<noteq> None", OF k])
    fix rp assume "fst (consumeBoxOpen_steps ev now e' v' s) = Inr rp"
    from consumeBoxOpen_steps_success [OF this] k
    show "exchanges (snd (consumeBoxOpen_steps ev now e' v' s)) e \<noteq> None"
      by (auto simp add: set_status_def retire_steps_effect)
  qed
  with ConsumeBoxOpen show ?thesis by simp
next
  case (CancelExchange e')
  have "exchanges (snd (cancelExchange ev now e' s)) e \<noteq> None"
    unfolding cancelExchange_def
    by (rule atomically_keeps [where P = "\<lambda>s'. exchanges s' e \<noteq> None", OF k])
      (simp add: Let_def retire_steps_effect y split: option.splits)
  with CancelExchange show ?thesis by simp
next
  case (ExpireExchange e')
  have "exchanges (snd (expireExchange ev now e' s)) e \<noteq> None"
    unfolding expireExchange_def
    by (rule atomically_keeps [where P = "\<lambda>s'. exchanges s' e \<noteq> None", OF k])
      (simp add: retire_steps_effect y split: option.splits)
  with ExpireExchange show ?thesis by simp
next
  case (GetStatus e')
  with k show ?thesis by simp
  qed
qed

lemma spent_run:
  assumes "spent (codes s) e v" "exchanges s e \<noteq> None"
    and "\<forall>call \<in> set calls. \<forall>r ttl. snd (snd call) \<noteq> RequestBoxOpen e r ttl v"
  shows "spent (codes (run cap calls s)) e v \<and> exchanges (run cap calls s) e \<noteq> None"
  using assms
proof (induction calls arbitrary: s)
  case Nil
  then show ?case by simp
next
  case (Cons call calls)
  obtain ev now rq where call: "call = (ev, now, rq)" by (cases call) auto
  from Cons.prems(3) call have rq: "\<And>r ttl. rq \<noteq> RequestBoxOpen e r ttl v"
    and rest: "\<forall>c \<in> set calls. \<forall>r ttl. snd (snd c) \<noteq> RequestBoxOpen e r ttl v"
    by simp_all
  have "spent (codes (snd (perform ev cap now rq s))) e v"
    by (rule spent_perform [OF Cons.prems(1) rq])
  moreover have "exchanges (snd (perform ev cap now rq s)) e \<noteq> None"
    by (rule known_perform [OF Cons.prems(2)])
  ultimately show ?case using Cons.IH rest by (simp add: call)
qed

text \<open>
  C4 (on the coordinator modelled from the spec): in every state the coordinator reaches
  from the system without exchanges, each exchange has at most one code that is unconsumed
  and unexpired, at any time. A successful \<open>consumeBoxOpen\<close> consumes the code it was given:
  presenting the same code for the same exchange again fails with \<open>InvalidCode\<close> and changes
  nothing, also after any later calls, as long as no new code of the same value was issued
  for the exchange in between.
\<close>

theorem single_use_code:
  "length (filter (\<lambda>c. scope c = e \<and> usable now c) (codes (run cap calls (initial l r)))) \<le> 1 \<and>
   (\<forall>rp. fst (perform ev cap t (ConsumeBoxOpen e v) s) = Inr rp \<and>
         (\<forall>call \<in> set later. \<forall>r ttl. snd (snd call) \<noteq> RequestBoxOpen e r ttl v) \<longrightarrow>
      perform ev' cap t' (ConsumeBoxOpen e v)
          (run cap later (snd (perform ev cap t (ConsumeBoxOpen e v) s)))
        = (Inl InvalidCode, run cap later (snd (perform ev cap t (ConsumeBoxOpen e v) s))))"
proof -
  have "code_inv (run cap calls (initial l r))"
    by (rule code_inv_run [OF code_inv_initial])
  then have "length (open_in (codes (run cap calls (initial l r))) e) \<le> 1"
    unfolding code_inv_def by (rule codes_ok_length)
  then have one: "length (filter (\<lambda>c. scope c = e \<and> usable now c)
      (codes (run cap calls (initial l r)))) \<le> 1"
    unfolding usable_open by (rule length_filter_le1)
  have "consumeBoxOpen ev' t' e v (run cap later (snd (consumeBoxOpen ev t e v s)))
      = (Inl InvalidCode, run cap later (snd (consumeBoxOpen ev t e v s)))"
    if ok: "fst (consumeBoxOpen ev t e v s) = Inr rp"
      and no: "\<forall>call \<in> set later. \<forall>r ttl. snd (snd call) \<noteq> RequestBoxOpen e r ttl v" for rp
  proof -
    from consumeBoxOpen_success [OF ok]
    have k: "exchanges (snd (consumeBoxOpen ev t e v s)) e \<noteq> None"
      and sp: "spent (codes (snd (consumeBoxOpen ev t e v s))) e v"
      by (simp_all add: spent_consume_self)
    from spent_run [OF sp k no, of cap]
    obtain x' where x': "exchanges (run cap later (snd (consumeBoxOpen ev t e v s))) e = Some x'"
      and sp': "spent (codes (run cap later (snd (consumeBoxOpen ev t e v s)))) e v"
      by auto
    from x' spent_validate [OF sp'] show ?thesis by (rule consumeBoxOpen_InvalidCode)
  qed
  with one show ?thesis by simp
qed



subsection \<open>The scenarios of the specification\<close>


lemma deposit_succeeds:
  "fst (perform up item_count 13 (ConsumeBoxOpen 0 4242) deposit_pending)
     = Inr (Transitioned AWAITING_PICKUP)"
  by (simp add: consumeBoxOpen_def consumeBoxOpen_steps_def atomically_def validate_def
      usable_def current_status_def lapsed_def deposit_pending_codes deposit_pending_exchange
      creator_code_def Let_def)




theorem single_use_code_witness:
  "fst (perform up item_count 13 (ConsumeBoxOpen 0 4242) deposit_pending)
     = Inr (Transitioned AWAITING_PICKUP) \<and>
   perform up item_count 15 (ConsumeBoxOpen 0 4242)
       (run item_count [(up, 14, RequestBoxOpen 0 pickup 5 777)]
          (snd (perform up item_count 13 (ConsumeBoxOpen 0 4242) deposit_pending)))
     = (Inl InvalidCode,
        run item_count [(up, 14, RequestBoxOpen 0 pickup 5 777)]
          (snd (perform up item_count 13 (ConsumeBoxOpen 0 4242) deposit_pending))) \<and>
   length (filter (\<lambda>c. scope c = 0 \<and> usable 14 c) (codes deposit_pending)) \<le> 1"
proof -
  have later: "\<forall>call \<in> set [(up, 14::nat, RequestBoxOpen 0 pickup 5 777)].
      \<forall>r ttl. snd (snd call) \<noteq> RequestBoxOpen 0 r ttl 4242"
    by simp
  from single_use_code [where e = 0 and now = 14 and cap = item_count and calls = "take 3 handover"
      and l = shelf and r = lockers and ev = up and t = 13 and v = 4242 and s = deposit_pending
      and later = "[(up, 14, RequestBoxOpen 0 pickup 5 777)]" and ev' = up and t' = 15]
    deposit_succeeds later
  show ?thesis unfolding deposit_pending_def by blast
qed



end
